theory Spec2Isabelle
  imports Main "HOL-Library.Sublist"
begin

text \<open>
  The downloader \<^verbatim>\<open>cpfrx_file.py\<close> and its English variant \<^verbatim>\<open>cpfrx_file_en.py\<close>:
  fetch a token from the gateway, submit the target, extract the direct link from the
  answer by three patterns, stream the file to disk and unzip it. The two variants
  share every function but differ in how they handle errors; where they differ the
  English one has the suffix \<open>_en\<close>. Pure code is a function; code with effects takes
  and returns the state; what raises returns the exception on the left of a sum.
\<close>

section \<open>Text and byte strings\<close>

text \<open>
  A Python \<^verbatim>\<open>str\<close> is a sequence of Unicode code points, so a text is a list of
  natural numbers (\<open>length\<close> counts code points, as \<^verbatim>\<open>len\<close> does). The string
  literals of the source are written with \<open>lit\<close>. A \<^verbatim>\<open>bytes\<close> value is a list of
  numbers too (each below 256).
\<close>

type_synonym pystr = "nat list"

type_synonym bytes = "nat list"

definition lit :: "string \<Rightarrow> pystr" where
  "lit s = map of_char s"

definition dquote :: nat where
  "dquote = 34"

text \<open>The two-character text made of a backslash and a slash (\<^verbatim>\<open>r"\/"\<close> in the source).\<close>

definition esc_slash :: pystr where
  "esc_slash = [92, 47]"

subsection \<open>\<^verbatim>\<open>str.replace\<close> and \<^verbatim>\<open>str.strip\<close>\<close>

text \<open>
  \<^verbatim>\<open>s.replace(old, new)\<close> scans from the left and replaces every non-overlapping
  occurrence of \<open>old\<close>; with an empty \<open>old\<close> it puts \<open>new\<close> in front of every
  character and at the end.
\<close>

function replace :: "'a list \<Rightarrow> 'a list \<Rightarrow> 'a list \<Rightarrow> 'a list" where
  "replace old new s =
     (if old = [] then new @ concat (map (\<lambda>c. c # new) s)
      else if prefix old s then new @ replace old new (drop (length old) s)
      else (case s of [] \<Rightarrow> [] | c # cs \<Rightarrow> c # replace old new cs))"
  by pat_completeness auto
termination
  by (relation "measure (\<lambda>(old, new, s). length s)") (auto simp: prefix_def)

declare replace.simps [simp del]

text \<open>\<^verbatim>\<open>s.strip(chars)\<close> removes the characters of \<open>chars\<close> from both ends.\<close>

definition strip :: "'a list \<Rightarrow> 'a list \<Rightarrow> 'a list" where
  "strip chars s =
     rev (dropWhile (\<lambda>c. c \<in> set chars) (rev (dropWhile (\<lambda>c. c \<in> set chars) s)))"

section \<open>Regular expressions\<close>

text \<open>
  The fragment of Python's \<^verbatim>\<open>re\<close> syntax that the three extraction patterns use:
  literal text, a greedy star over a character class, concatenation, alternation and
  the (single) capturing group.
\<close>

datatype 'a regex =
    Lit "'a list"
  | Star "'a \<Rightarrow> bool"
  | Seq "'a regex" "'a regex"
  | Alt "'a regex" "'a regex"
  | Group "'a regex"

text \<open>
  Matching is by backtracking, as in \<^verbatim>\<open>re\<close>: \<open>k\<close> is what remains to be matched
  after this expression, applied to the rest of the text and to the group captured so
  far. A greedy star takes the longest run first and gives characters back one at a
  time while the continuation fails; an alternation tries its branches from the left.
\<close>

fun star_greedy :: "('a \<Rightarrow> bool) \<Rightarrow> 'a list \<Rightarrow> ('a list \<Rightarrow> 'r option) \<Rightarrow> 'r option" where
  "star_greedy P [] k = k []"
| "star_greedy P (c # cs) k =
     (if P c then (case star_greedy P cs k of Some r \<Rightarrow> Some r | None \<Rightarrow> k (c # cs))
      else k (c # cs))"

fun re_match ::
  "'a regex \<Rightarrow> 'a list \<Rightarrow> 'a list option \<Rightarrow> ('a list \<Rightarrow> 'a list option \<Rightarrow> 'r option) \<Rightarrow> 'r option"
where
  "re_match (Lit l) s g k = (if prefix l s then k (drop (length l) s) g else None)"
| "re_match (Star P) s g k = star_greedy P s (\<lambda>s'. k s' g)"
| "re_match (Seq a b) s g k = re_match a s g (\<lambda>s' g'. re_match b s' g' k)"
| "re_match (Alt a b) s g k =
     (case re_match a s g k of Some r \<Rightarrow> Some r | None \<Rightarrow> re_match b s g k)"
| "re_match (Group a) s g k =
     re_match a s g (\<lambda>s' g'. k s' (Some (take (length s - length s') s)))"

text \<open>
  \<^verbatim>\<open>re.search\<close> tries every start position from the left and returns the first
  match; the match object is represented by its group 1 (\<open>None\<close> inside when the
  group took no part in the match).
\<close>

fun re_search :: "'a regex \<Rightarrow> 'a list \<Rightarrow> 'a list option option" where
  "re_search r [] = re_match r [] None (\<lambda>s' g. Some g)"
| "re_search r (c # cs) =
     (case re_match r (c # cs) None (\<lambda>s' g. Some g) of
        Some g \<Rightarrow> Some g
      | None \<Rightarrow> re_search r cs)"

subsection \<open>The three extraction patterns\<close>

text \<open>
  \<^verbatim>\<open>\s\<close> in a pattern over \<^verbatim>\<open>str\<close> matches the Unicode whitespace characters.
\<close>

definition is_space :: "nat \<Rightarrow> bool" where
  "is_space c \<longleftrightarrow>
     c \<in> set [9, 10, 11, 12, 13, 28, 29, 30, 31, 32, 133, 160, 5760, 8192, 8193, 8194,
       8195, 8196, 8197, 8198, 8199, 8200, 8201, 8202, 8232, 8233, 8239, 8287, 12288]"

definition not_dquote :: "nat \<Rightarrow> bool" where
  "not_dquote c \<longleftrightarrow> c \<noteq> dquote"

definition not_gt :: "nat \<Rightarrow> bool" where
  "not_gt c \<longleftrightarrow> c \<noteq> 62"

text \<open>\<^verbatim>\<open>data-u="([^"]*)"\<close>\<close>

definition data_u_re :: "nat regex" where
  \<open>data_u_re =
     Seq (Lit (lit ''data-u="'')) (Seq (Group (Star not_dquote)) (Lit (lit ''"'')))\<close>

text \<open>\<^verbatim>\<open>window\.location\.href\s*=\s*"([^"]*)"\<close>\<close>

definition location_re :: "nat regex" where
  \<open>location_re =
     Seq (Lit (lit ''window.location.href''))
      (Seq (Star is_space)
        (Seq (Lit (lit ''=''))
          (Seq (Star is_space)
            (Seq (Lit (lit ''"'')) (Seq (Group (Star not_dquote)) (Lit (lit ''"'')))))))\<close>

text \<open>\<^verbatim>\<open><a[^>]*href="(/(?:stream|get|browser)/[^"]*)"\<close>\<close>

definition anchor_re :: "nat regex" where
  \<open>anchor_re =
     Seq (Lit (lit ''<a''))
      (Seq (Star not_gt)
        (Seq (Lit (lit ''href="''))
          (Seq (Group
                 (Seq (Lit (lit ''/''))
                   (Seq (Alt (Lit (lit ''stream'')) (Alt (Lit (lit ''get'')) (Lit (lit ''browser''))))
                     (Seq (Lit (lit ''/'')) (Star not_dquote)))))
            (Lit (lit ''"'')))))\<close>

section \<open>Exceptions\<close>

text \<open>
  The exceptions the program can meet, all of them subclasses of \<^verbatim>\<open>Exception\<close>.
  \<open>RequestException\<close> stands for \<^verbatim>\<open>requests.RequestException\<close> and its subclasses
  (connection errors, timeouts, the \<^verbatim>\<open>HTTPError\<close> of \<^verbatim>\<open>raise_for_status\<close>).
  The \<^verbatim>\<open>RuntimeError\<close> of the program carries which of its two messages it has.
\<close>

datatype reason = NoDirectLink | RequestFailed

datatype exn =
    RequestException
  | TypeError
  | KeyError
  | AttributeError
  | ValueError
  | RuntimeError reason
  | BadZipFile
  | FileNotFoundError

fun is_RequestException :: "exn \<Rightarrow> bool" where
  "is_RequestException RequestException = True"
| "is_RequestException e = False"

text \<open>
  The English variant also leaves its functions through \<^verbatim>\<open>sys.exit\<close>, which raises
  \<^verbatim>\<open>SystemExit\<close>; that is not an \<^verbatim>\<open>Exception\<close>, so \<^verbatim>\<open>except Exception\<close> does
  not catch it.
\<close>

datatype failure = Raised exn | SystemExit int

section \<open>The link resolver\<close>

text \<open>
  The three rules of \<^verbatim>\<open>get_real_url\<close>, applied to the text \<open>html\<close> of the working
  response whose final URL is \<open>resp_url\<close>. \<^verbatim>\<open>urllib.parse.urljoin\<close> is a library
  function and a parameter here; it may raise (\<^verbatim>\<open>ValueError\<close> on a malformed
  authority), so it returns a result.
\<close>

type_synonym urljoin = "pystr \<Rightarrow> pystr \<Rightarrow> exn + pystr"

definition group1 :: "pystr option \<Rightarrow> exn + pystr" where
  "group1 g = (case g of None \<Rightarrow> Inl AttributeError | Some x \<Rightarrow> Inr x)"

definition extract_link :: "urljoin \<Rightarrow> pystr \<Rightarrow> pystr \<Rightarrow> exn + pystr" where
  \<open>extract_link urljoin resp_url html =
     (case re_search data_u_re html of
        Some m \<Rightarrow>
          (case group1 m of
             Inl e \<Rightarrow> Inl e
           | Inr x \<Rightarrow> Inr (strip (lit ''"'') (replace (lit ''&quot;'') [] (replace esc_slash (lit ''/'') x))))
      | None \<Rightarrow>
          (case re_search location_re html of
             Some m \<Rightarrow>
               (case group1 m of
                  Inl e \<Rightarrow> Inl e
                | Inr x \<Rightarrow> urljoin resp_url (replace esc_slash (lit ''/'') x))
           | None \<Rightarrow>
               (case re_search anchor_re html of
                  Some m \<Rightarrow>
                    (case group1 m of
                       Inl e \<Rightarrow> Inl e
                     | Inr x \<Rightarrow> urljoin resp_url x)
                | None \<Rightarrow> Inl (RuntimeError NoDirectLink))))\<close>

section \<open>The library function \<^verbatim>\<open>urljoin\<close>\<close>

text \<open>
  \<^verbatim>\<open>urllib.parse.urljoin\<close> with \<^verbatim>\<open>urlsplit\<close>, \<^verbatim>\<open>urlparse\<close>, \<^verbatim>\<open>urlunsplit\<close> and
  \<^verbatim>\<open>urlunparse\<close>, as in CPython 3.11, for \<^verbatim>\<open>str\<close> arguments. The two validations
  of \<^verbatim>\<open>urlsplit\<close> that rest on other modules are parameters: whether a bracketed host
  is accepted (\<^verbatim>\<open>ipaddress\<close>), and whether a non-ASCII authority passes the NFKC check
  (\<^verbatim>\<open>unicodedata\<close>).
\<close>

record urllib =
  bracketed_host_ok :: "pystr \<Rightarrow> bool"
  nfkc_ok :: "pystr \<Rightarrow> bool"

definition uses_relative :: "pystr list" where
  "uses_relative = map lit [[], ''ftp'', ''http'', ''gopher'', ''nntp'', ''imap'', ''wais'', ''file'',
     ''https'', ''shttp'', ''mms'', ''prospero'', ''rtsp'', ''rtsps'', ''rtspu'', ''sftp'', ''svn'',
     ''svn+ssh'', ''ws'', ''wss'']"

definition uses_netloc :: "pystr list" where
  "uses_netloc = map lit [[], ''ftp'', ''http'', ''gopher'', ''nntp'', ''telnet'', ''imap'', ''wais'',
     ''file'', ''mms'', ''https'', ''shttp'', ''snews'', ''prospero'', ''rtsp'', ''rtsps'', ''rtspu'',
     ''rsync'', ''svn'', ''svn+ssh'', ''sftp'', ''nfs'', ''git'', ''git+ssh'', ''ws'', ''wss'']"

definition uses_params :: "pystr list" where
  "uses_params = map lit [[], ''ftp'', ''hdl'', ''prospero'', ''http'', ''imap'', ''https'', ''shttp'',
     ''rtsp'', ''rtsps'', ''rtspu'', ''sip'', ''sips'', ''mms'', ''sftp'', ''tel'']"

definition scheme_chars :: pystr where
  "scheme_chars = lit ''abcdefghijklmnopqrstuvwxyzABCDEFGHIJKLMNOPQRSTUVWXYZ0123456789+-.''"

text \<open>The characters from \<^verbatim>\<open>\x00\<close> to the space, stripped from the ends.\<close>

definition c0_control_or_space :: pystr where
  "c0_control_or_space = [0..<33]"

definition lstrip :: "'a list \<Rightarrow> 'a list \<Rightarrow> 'a list" where
  "lstrip chars s = dropWhile (\<lambda>c. c \<in> set chars) s"

text \<open>Tab, carriage return and line feed are removed everywhere.\<close>

definition remove_unsafe_bytes :: "pystr \<Rightarrow> pystr" where
  "remove_unsafe_bytes s = replace [10] [] (replace [13] [] (replace [9] [] s))"

definition is_ascii_alpha :: "nat \<Rightarrow> bool" where
  "is_ascii_alpha c \<longleftrightarrow> (65 \<le> c \<and> c \<le> 90) \<or> (97 \<le> c \<and> c \<le> 122)"

definition ascii_lower :: "pystr \<Rightarrow> pystr" where
  "ascii_lower s = map (\<lambda>c. if 65 \<le> c \<and> c \<le> 90 then c + 32 else c) s"

text \<open>\<^verbatim>\<open>s.split(c, 1)\<close> for a text that contains \<open>c\<close>: the parts before and after the first.\<close>

definition split_once :: "nat \<Rightarrow> pystr \<Rightarrow> pystr \<times> pystr" where
  "split_once c s = (takeWhile (\<lambda>x. x \<noteq> c) s, tl (dropWhile (\<lambda>x. x \<noteq> c) s))"

text \<open>
  The scheme of \<^verbatim>\<open>urlsplit\<close>: the text before the first colon, when it is not empty,
  starts with an ASCII letter and consists of scheme characters. The result is the
  scheme in lower case and the text after the colon.
\<close>

definition split_scheme :: "pystr \<Rightarrow> (pystr \<times> pystr) option" where
  "split_scheme u =
     (if 58 \<in> set u \<and> fst (split_once 58 u) \<noteq> [] \<and> is_ascii_alpha (hd u) \<and>
         list_all (\<lambda>c. c \<in> set scheme_chars) (fst (split_once 58 u))
      then Some (ascii_lower (fst (split_once 58 u)), snd (split_once 58 u))
      else None)"

definition delimiter :: "nat \<Rightarrow> bool" where
  "delimiter c \<longleftrightarrow> c = 47 \<or> c = 63 \<or> c = 35"

text \<open>\<^verbatim>\<open>_splitnetloc(url, 2)\<close>: the authority ends at the first of \<^verbatim>\<open>/ ? #\<close>.\<close>

definition splitnetloc :: "pystr \<Rightarrow> pystr \<times> pystr" where
  "splitnetloc u =
     (takeWhile (\<lambda>c. \<not> delimiter c) (drop 2 u), dropWhile (\<lambda>c. \<not> delimiter c) (drop 2 u))"

definition check_brackets :: "urllib \<Rightarrow> pystr \<Rightarrow> exn + unit" where
  "check_brackets lib netloc =
     (if (91 \<in> set netloc \<and> 93 \<notin> set netloc) \<or> (93 \<in> set netloc \<and> 91 \<notin> set netloc)
      then Inl ValueError
      else if 91 \<in> set netloc \<and> 93 \<in> set netloc
      then (if bracketed_host_ok lib (fst (split_once 93 (snd (split_once 91 netloc))))
            then Inr () else Inl ValueError)
      else Inr ())"

definition checknetloc :: "urllib \<Rightarrow> pystr \<Rightarrow> exn + unit" where
  "checknetloc lib netloc =
     (if netloc = [] \<or> list_all (\<lambda>c. c < 128) netloc then Inr ()
      else if nfkc_ok lib netloc then Inr () else Inl ValueError)"

text \<open>\<^verbatim>\<open>urlsplit(url, scheme)\<close>: scheme, netloc, path, query, fragment.\<close>

definition py_urlsplit ::
  "urllib \<Rightarrow> pystr \<Rightarrow> pystr \<Rightarrow> exn + pystr \<times> pystr \<times> pystr \<times> pystr \<times> pystr" where
  "py_urlsplit lib url0 scheme0 =
     (let url1 = remove_unsafe_bytes (lstrip c0_control_or_space url0);
          scheme1 = remove_unsafe_bytes (strip c0_control_or_space scheme0);
          (scheme, url2) = (case split_scheme url1 of Some sr \<Rightarrow> sr | None \<Rightarrow> (scheme1, url1));
          (netloc, url3) = (if take 2 url2 = lit ''//'' then splitnetloc url2 else ([], url2))
      in (case (if take 2 url2 = lit ''//'' then check_brackets lib netloc else Inr ()) of
            Inl e \<Rightarrow> Inl e
          | Inr _ \<Rightarrow>
              (let (url4, fragment) = (if 35 \<in> set url3 then split_once 35 url3 else (url3, []));
                   (url5, query) = (if 63 \<in> set url4 then split_once 63 url4 else (url4, []))
               in (case checknetloc lib netloc of
                     Inl e \<Rightarrow> Inl e
                   | Inr _ \<Rightarrow> Inr (scheme, netloc, url5, query, fragment)))))"

text \<open>
  \<^verbatim>\<open>_splitparams\<close>: the parameters start at the first semicolon of the last path
  segment (of the whole text when it has no slash).
\<close>

definition splitparams :: "pystr \<Rightarrow> pystr \<times> pystr" where
  "splitparams u =
     (if 47 \<in> set u
      then (let last_seg = 47 # rev (takeWhile (\<lambda>c. c \<noteq> 47) (rev u));
                front = rev (tl (dropWhile (\<lambda>c. c \<noteq> 47) (rev u)))
            in if 59 \<in> set last_seg
               then (front @ fst (split_once 59 last_seg), snd (split_once 59 last_seg))
               else (u, []))
      else split_once 59 u)"

text \<open>\<^verbatim>\<open>urlparse(url, scheme)\<close>: scheme, netloc, path, params, query, fragment.\<close>

definition py_urlparse ::
  "urllib \<Rightarrow> pystr \<Rightarrow> pystr \<Rightarrow> exn + pystr \<times> pystr \<times> pystr \<times> pystr \<times> pystr \<times> pystr" where
  "py_urlparse lib url0 scheme0 =
     (case py_urlsplit lib url0 scheme0 of
        Inl e \<Rightarrow> Inl e
      | Inr (scheme, netloc, u, query, fragment) \<Rightarrow>
          (let (u', params) = (if scheme \<in> set uses_params \<and> 59 \<in> set u then splitparams u else (u, []))
           in Inr (scheme, netloc, u', params, query, fragment)))"

definition py_urlunsplit :: "pystr \<times> pystr \<times> pystr \<times> pystr \<times> pystr \<Rightarrow> pystr" where
  "py_urlunsplit c =
     (case c of (scheme, netloc, u, query, fragment) \<Rightarrow>
        (let u1 = (if netloc \<noteq> [] \<or> (scheme \<noteq> [] \<and> scheme \<in> set uses_netloc) \<or> take 2 u = lit ''//''
                   then lit ''//'' @ netloc @ (if u \<noteq> [] \<and> take 1 u \<noteq> lit ''/'' then lit ''/'' @ u else u)
                   else u);
             u2 = (if scheme \<noteq> [] then scheme @ lit '':'' @ u1 else u1);
             u3 = (if query \<noteq> [] then u2 @ lit ''?'' @ query else u2)
         in if fragment \<noteq> [] then u3 @ lit ''#'' @ fragment else u3))"

definition py_urlunparse :: "pystr \<times> pystr \<times> pystr \<times> pystr \<times> pystr \<times> pystr \<Rightarrow> pystr" where
  "py_urlunparse c =
     (case c of (scheme, netloc, u, params, query, fragment) \<Rightarrow>
        py_urlunsplit (scheme, netloc, if params \<noteq> [] then u @ lit '';'' @ params else u, query, fragment))"

text \<open>\<^verbatim>\<open>s.split(c)\<close> and \<^verbatim>\<open>sep.join(parts)\<close>.\<close>

fun py_split :: "'a \<Rightarrow> 'a list \<Rightarrow> 'a list list" where
  "py_split c [] = [[]]"
| "py_split c (x # xs) =
     (if x = c then [] # py_split c xs
      else (case py_split c xs of [] \<Rightarrow> [[x]] | y # ys \<Rightarrow> (x # y) # ys))"

fun py_join :: "'a list \<Rightarrow> 'a list list \<Rightarrow> 'a list" where
  "py_join sep [] = []"
| "py_join sep [x] = x"
| "py_join sep (x # y # ys) = x @ sep @ py_join sep (y # ys)"

text \<open>
  The loop of \<^verbatim>\<open>urljoin\<close> over the path segments: \<^verbatim>\<open>..\<close> pops the last resolved
  segment (nothing, when there is none), \<^verbatim>\<open>.\<close> is skipped.
\<close>

fun resolve_segments :: "pystr list \<Rightarrow> pystr list \<Rightarrow> pystr list" where
  "resolve_segments [] resolved = resolved"
| "resolve_segments (seg # segs) resolved =
     (if seg = lit ''..'' then resolve_segments segs (butlast resolved)
      else if seg = lit ''.'' then resolve_segments segs resolved
      else resolve_segments segs (resolved @ [seg]))"

text \<open>
  The path of the result: the base path without its last segment, followed by the
  segments of the reference (which replace it when the reference starts with a slash),
  with empty inner segments dropped and the dot segments resolved.
\<close>

definition merge_paths :: "pystr \<Rightarrow> pystr \<Rightarrow> pystr" where
  "merge_paths bpath path =
     (let parts = py_split 47 bpath;
          base_parts = (if last parts \<noteq> [] then butlast parts else parts);
          segments =
            (if take 1 path = lit ''/'' then py_split 47 path
             else (let segs = base_parts @ py_split 47 path
                   in if 2 \<le> length segs
                      then hd segs # filter (\<lambda>s. s \<noteq> []) (butlast (tl segs)) @ [last segs]
                      else segs));
          resolved = resolve_segments segments [];
          resolved' = (if last segments = lit ''.'' \<or> last segments = lit ''..''
                       then resolved @ [[]] else resolved);
          joined = py_join (lit ''/'') resolved'
      in if joined = [] then lit ''/'' else joined)"

definition py_urljoin :: "urllib \<Rightarrow> pystr \<Rightarrow> pystr \<Rightarrow> exn + pystr" where
  "py_urljoin lib base u =
     (if base = [] then Inr u
      else if u = [] then Inr base
      else
        (case py_urlparse lib base [] of
           Inl e \<Rightarrow> Inl e
         | Inr (bscheme, bnetloc, bpath, bparams, bquery, bfragment) \<Rightarrow>
             (case py_urlparse lib u bscheme of
                Inl e \<Rightarrow> Inl e
              | Inr (scheme, netloc, path, params, query, fragment) \<Rightarrow>
                  (if scheme \<noteq> bscheme \<or> scheme \<notin> set uses_relative then Inr u
                   else if scheme \<in> set uses_netloc \<and> netloc \<noteq> []
                   then Inr (py_urlunparse (scheme, netloc, path, params, query, fragment))
                   else
                     (let netloc' = (if scheme \<in> set uses_netloc then bnetloc else netloc)
                      in if path = [] \<and> params = []
                         then Inr (py_urlunparse (scheme, netloc', bpath, bparams,
                                     if query = [] then bquery else query, fragment))
                         else Inr (py_urlunparse (scheme, netloc', merge_paths bpath path,
                                     params, query, fragment)))))))"

text \<open>
  Absolute and relative, for the URLs of this program: an absolute URL has the scheme
  \<^verbatim>\<open>http\<close> or \<^verbatim>\<open>https\<close>, then \<^verbatim>\<open>://\<close>, then a host, that is a next character
  other than \<^verbatim>\<open>/ ? #\<close> (and other than a tab, carriage return or line feed, which
  \<^verbatim>\<open>urlsplit\<close> removes). A reference is relative when \<^verbatim>\<open>urlsplit\<close> finds no
  scheme in it.
\<close>

definition host_start :: "pystr \<Rightarrow> bool" where
  "host_start s = (case s of [] \<Rightarrow> False | c # _ \<Rightarrow> \<not> delimiter c \<and> c \<noteq> 9 \<and> c \<noteq> 10 \<and> c \<noteq> 13)"

definition absolute_http :: "pystr \<Rightarrow> bool" where
  "absolute_http u \<longleftrightarrow>
     prefix (lit ''http://'') u \<and> host_start (drop 7 u) \<or>
     prefix (lit ''https://'') u \<and> host_start (drop 8 u)"

definition relative_ref :: "pystr \<Rightarrow> bool" where
  "relative_ref u \<longleftrightarrow> split_scheme (remove_unsafe_bytes (lstrip c0_control_or_space u)) = None"

section \<open>The environment\<close>

text \<open>
  What a request returns, as far as the program reads it: the status code, the decoded
  text, the final URL, the \<^verbatim>\<open>content-length\<close> header if there is one, and the
  chunks that \<^verbatim>\<open>iter_content\<close> delivers, followed by the exception that ends the
  stream early, if any.
\<close>

record response =
  status_code :: int
  resp_text :: pystr
  url :: pystr
  content_length :: "pystr option"
  chunks :: "bytes list"
  stream_end :: "exn option"

text \<open>
  An element of the parsed landing page: its tag name and its attributes (a dictionary).
\<close>

record element =
  tag :: pystr
  attrs :: "pystr \<rightharpoonup> pystr"

text \<open>
  Everything outside the program is a parameter: the answers of the network to the
  five requests of the session, and the library functions \<^verbatim>\<open>BeautifulSoup\<close> (the
  elements of a page in document order), \<^verbatim>\<open>urljoin\<close>, \<^verbatim>\<open>int\<close> and
  \<^verbatim>\<open>zipfile.ZipFile\<close>, which gives the members of an archive in order, each with
  its name and either its contents or the exception that reading it raises, or
  \<^verbatim>\<open>BadZipFile\<close> when the file is not a zip archive.
\<close>

record world =
  http_get_index :: "exn + response"
  http_post_servers :: "pystr \<Rightarrow> pystr \<Rightarrow> exn + response"
  http_send_next :: "response \<Rightarrow> exn + response"
  http_head :: "pystr \<Rightarrow> exn + response"
  http_get_stream :: "pystr \<Rightarrow> exn + response"
  soup :: "pystr \<Rightarrow> element list"
  w_urljoin :: urljoin
  py_int :: "pystr \<Rightarrow> exn + int"
  zip_open :: "bytes \<Rightarrow> exn + (pystr \<times> (exn + bytes)) list"

text \<open>What the program prints, one constructor for each \<^verbatim>\<open>print\<close> of the source.\<close>

datatype msg =
    Usage
  | FinalLink pystr
  | Progress int int int
  | Completed pystr
  | Unzipped pystr
  | Failed exn
  | FailedCsrf exn
  | FailedDownload exn
  | FailedUnzip exn

text \<open>
  The state the program changes: the files, addressed by directory and name inside it,
  and the lines printed so far. Directories are not part of it, so \<^verbatim>\<open>mkdir\<close> does
  not show.
\<close>

record state =
  files :: "pystr \<times> pystr \<rightharpoonup> bytes"
  out :: "msg list"

definition raise_for_status :: "response \<Rightarrow> exn + unit" where
  "raise_for_status r =
     (if 400 \<le> status_code r \<and> status_code r < 600 then Inl RequestException else Inr ())"

section \<open>The token fetcher\<close>

text \<open>
  \<^verbatim>\<open>soup.find("input", {"name": "csrf"})\<close> is the first \<^verbatim>\<open>input\<close> element of the
  page whose \<^verbatim>\<open>name\<close> is \<^verbatim>\<open>csrf\<close>, or \<^verbatim>\<open>None\<close>; subscripting \<^verbatim>\<open>None\<close>
  raises \<^verbatim>\<open>TypeError\<close>, subscripting an element without the attribute raises
  \<^verbatim>\<open>KeyError\<close>.
\<close>

definition is_csrf_input :: "element \<Rightarrow> bool" where
  "is_csrf_input e \<longleftrightarrow> tag e = lit ''input'' \<and> attrs e (lit ''name'') = Some (lit ''csrf'')"

definition find_csrf_input :: "element list \<Rightarrow> element option" where
  "find_csrf_input els = find is_csrf_input els"

definition csrf_value :: "element list \<Rightarrow> exn + pystr" where
  "csrf_value els =
     (case find_csrf_input els of
        None \<Rightarrow> Inl TypeError
      | Some e \<Rightarrow> (case attrs e (lit ''value'') of None \<Rightarrow> Inl KeyError | Some v \<Rightarrow> Inr v))"

definition get_csrf :: "world \<Rightarrow> exn + pystr" where
  "get_csrf w =
     (case http_get_index w of
        Inl e \<Rightarrow> Inl e
      | Inr resp \<Rightarrow>
          (case raise_for_status resp of
             Inl e \<Rightarrow> Inl e
           | Inr _ \<Rightarrow> csrf_value (soup w (resp_text resp))))"

text \<open>
  The English variant catches \<^verbatim>\<open>requests.RequestException\<close>, prints and calls
  \<^verbatim>\<open>sys.exit(1)\<close>; any other exception passes through.
\<close>

definition get_csrf_en :: "world \<Rightarrow> state \<Rightarrow> (failure + pystr) \<times> state" where
  "get_csrf_en w st =
     (case get_csrf w of
        Inl e \<Rightarrow>
          (if is_RequestException e
           then (Inl (SystemExit 1), st\<lparr>out := out st @ [FailedCsrf e]\<rparr>)
           else (Inl (Raised e), st))
      | Inr v \<Rightarrow> (Inr v, st))"

section \<open>Submitting the target\<close>

text \<open>
  The body of \<^verbatim>\<open>get_real_url\<close> after the token: the POST without redirects, one
  followed redirect on 301 or 302, then the three rules on the working response.
\<close>

definition submit :: "world \<Rightarrow> pystr \<Rightarrow> pystr \<Rightarrow> exn + pystr" where
  "submit w target csrf =
     (case http_post_servers w target csrf of
        Inl e \<Rightarrow> Inl e
      | Inr resp0 \<Rightarrow>
          (case (if status_code resp0 = 301 \<or> status_code resp0 = 302
                 then http_send_next w resp0 else Inr resp0) of
             Inl e \<Rightarrow> Inl e
           | Inr resp \<Rightarrow> extract_link (w_urljoin w) (url resp) (resp_text resp)))"

definition get_real_url :: "world \<Rightarrow> pystr \<Rightarrow> exn + pystr" where
  "get_real_url w target =
     (case get_csrf w of
        Inl e \<Rightarrow> Inl e
      | Inr csrf \<Rightarrow> submit w target csrf)"

text \<open>
  The English variant turns a \<^verbatim>\<open>requests.RequestException\<close> of the submission into
  a \<^verbatim>\<open>RuntimeError\<close>; the token is fetched outside that \<^verbatim>\<open>try\<close>.
\<close>

definition get_real_url_en :: "world \<Rightarrow> pystr \<Rightarrow> state \<Rightarrow> (failure + pystr) \<times> state" where
  "get_real_url_en w target st =
     (case get_csrf_en w st of
        (Inl x, st') \<Rightarrow> (Inl x, st')
      | (Inr csrf, st') \<Rightarrow>
          (case submit w target csrf of
             Inl e \<Rightarrow>
               (if is_RequestException e then (Inl (Raised (RuntimeError RequestFailed)), st')
                else (Inl (Raised e), st'))
           | Inr u \<Rightarrow> (Inr u, st')))"

section \<open>The streaming downloader\<close>

text \<open>
  The loop over the chunks: the contents of the output file, the byte counter and the
  printed lines, before and after. An empty chunk is skipped; a progress line is
  printed only under \<^verbatim>\<open>if total:\<close>. The division is Python's floor division.
\<close>

fun write_chunks :: "int \<Rightarrow> bytes list \<Rightarrow> bytes \<times> int \<times> msg list \<Rightarrow> bytes \<times> int \<times> msg list" where
  "write_chunks tot [] acc = acc"
| "write_chunks tot (chunk # rest) (f, done_bytes, printed) =
     (if chunk = [] then write_chunks tot rest (f, done_bytes, printed)
      else
        (let done' = done_bytes + int (length chunk)
         in write_chunks tot rest
              (f @ chunk, done',
               if tot \<noteq> 0 then printed @ [Progress done' tot (done' * 100 div tot)]
               else printed)))"

text \<open>\<^verbatim>\<open>int(r.headers.get("content-length", 0))\<close>\<close>

definition total_length :: "world \<Rightarrow> response \<Rightarrow> exn + int" where
  "total_length w r = (case content_length r of None \<Rightarrow> Inr 0 | Some h \<Rightarrow> py_int w h)"

text \<open>
  The \<^verbatim>\<open>with\<close> block of \<^verbatim>\<open>download\<close>: the output file is opened for writing
  (and so emptied), the chunks are written, and an exception that ends the stream
  leaves what was written so far.
\<close>

definition save_stream :: "world \<Rightarrow> response \<Rightarrow> pystr \<Rightarrow> state \<Rightarrow> (exn + unit) \<times> state" where
  "save_stream w r save_path st =
     (case raise_for_status r of
        Inl e \<Rightarrow> (Inl e, st)
      | Inr _ \<Rightarrow>
          (case total_length w r of
             Inl e \<Rightarrow> (Inl e, st)
           | Inr tot \<Rightarrow>
               (case write_chunks tot (chunks r) ([], 0, out st) of
                  (f, done_bytes, printed) \<Rightarrow>
                    (let st' = st\<lparr>files := (files st)((save_path, lit ''downloaded_file.zip'') \<mapsto> f),
                                    out := printed\<rparr>
                     in (case stream_end r of
                           Some e \<Rightarrow> (Inl e, st')
                         | None \<Rightarrow> (Inr (), st'\<lparr>out := printed @ [Completed save_path]\<rparr>))))))"

definition fetch :: "world \<Rightarrow> pystr \<Rightarrow> pystr \<Rightarrow> state \<Rightarrow> (exn + unit) \<times> state" where
  "fetch w real save_path st =
     (case http_get_stream w real of
        Inl e \<Rightarrow> (Inl e, st)
      | Inr r \<Rightarrow> save_stream w r save_path st)"

definition download :: "world \<Rightarrow> pystr \<Rightarrow> pystr \<Rightarrow> state \<Rightarrow> (exn + unit) \<times> state" where
  "download w target save_path st =
     (case get_real_url w target of
        Inl e \<Rightarrow> (Inl e, st)
      | Inr real \<Rightarrow>
          (case http_head w real of
             Inl e \<Rightarrow> (Inl e, st)
           | Inr r0 \<Rightarrow> fetch w (url r0) save_path (st\<lparr>out := out st @ [FinalLink (url r0)]\<rparr>)))"

text \<open>
  The English variant wraps the \<^verbatim>\<open>with\<close> block in a \<^verbatim>\<open>try\<close> that catches
  \<^verbatim>\<open>requests.RequestException\<close>, prints and calls \<^verbatim>\<open>sys.exit(1)\<close>.
\<close>

definition download_en :: "world \<Rightarrow> pystr \<Rightarrow> pystr \<Rightarrow> state \<Rightarrow> (failure + unit) \<times> state" where
  "download_en w target save_path st =
     (case get_real_url_en w target st of
        (Inl x, st0) \<Rightarrow> (Inl x, st0)
      | (Inr real, st0) \<Rightarrow>
          (case http_head w real of
             Inl e \<Rightarrow> (Inl (Raised e), st0)
           | Inr r0 \<Rightarrow>
               (case fetch w (url r0) save_path (st0\<lparr>out := out st0 @ [FinalLink (url r0)]\<rparr>) of
                  (Inl e, st2) \<Rightarrow>
                    (if is_RequestException e
                     then (Inl (SystemExit 1), st2\<lparr>out := out st2 @ [FailedDownload e]\<rparr>)
                     else (Inl (Raised e), st2))
                | (Inr u, st2) \<Rightarrow> (Inr u, st2))))"

section \<open>The archive extractor\<close>

text \<open>
  \<^verbatim>\<open>extractall\<close> writes the members in order into the directory and stops at the
  first member that cannot be read.
\<close>

fun extractall ::
  "pystr \<Rightarrow> (pystr \<times> (exn + bytes)) list \<Rightarrow> (pystr \<times> pystr \<rightharpoonup> bytes) \<Rightarrow>
     (exn + unit) \<times> (pystr \<times> pystr \<rightharpoonup> bytes)"
where
  "extractall d [] fs = (Inr (), fs)"
| "extractall d ((name, Inl e) # ms) fs = (Inl e, fs)"
| "extractall d ((name, Inr content) # ms) fs = extractall d ms (fs((d, name) \<mapsto> content))"

definition unzip :: "world \<Rightarrow> pystr \<Rightarrow> state \<Rightarrow> (exn + unit) \<times> state" where
  "unzip w save_dir st =
     (case files st (save_dir, lit ''downloaded_file.zip'') of
        None \<Rightarrow> (Inl FileNotFoundError, st)
      | Some archive \<Rightarrow>
          (case zip_open w archive of
             Inl e \<Rightarrow> (Inl e, st)
           | Inr members \<Rightarrow>
               (case extractall save_dir members (files st) of
                  (Inl e, fs) \<Rightarrow> (Inl e, st\<lparr>files := fs\<rparr>)
                | (Inr _, fs) \<Rightarrow> (Inr (), st\<lparr>files := fs, out := out st @ [Unzipped save_dir]\<rparr>))))"

text \<open>
  The English variant catches \<^verbatim>\<open>zipfile.BadZipFile\<close>, prints and calls
  \<^verbatim>\<open>sys.exit(1)\<close>.
\<close>

definition unzip_en :: "world \<Rightarrow> pystr \<Rightarrow> state \<Rightarrow> (failure + unit) \<times> state" where
  "unzip_en w save_dir st =
     (case unzip w save_dir st of
        (Inl e, st') \<Rightarrow>
          (if e = BadZipFile
           then (Inl (SystemExit 1), st'\<lparr>out := out st' @ [FailedUnzip e]\<rparr>)
           else (Inl (Raised e), st'))
      | (Inr u, st') \<Rightarrow> (Inr u, st'))"

section \<open>The command line\<close>

text \<open>
  The main block: \<open>argv\<close> is \<^verbatim>\<open>sys.argv\<close> (the script name first); the result is
  the exit code of the process and the final state. The \<^verbatim>\<open>except Exception\<close>
  clause prints the failure and exits with code 2.
\<close>

definition main :: "world \<Rightarrow> pystr list \<Rightarrow> state \<Rightarrow> int \<times> state" where
  "main w argv st =
     (if length argv \<noteq> 3 then (1, st\<lparr>out := out st @ [Usage]\<rparr>)
      else
        (case download w (argv ! 1) (argv ! 2) st of
           (Inl e, st1) \<Rightarrow> (2, st1\<lparr>out := out st1 @ [Failed e]\<rparr>)
         | (Inr _, st1) \<Rightarrow>
             (case unzip w (argv ! 2) st1 of
                (Inl e, st2) \<Rightarrow> (2, st2\<lparr>out := out st2 @ [Failed e]\<rparr>)
              | (Inr _, st2) \<Rightarrow> (0, st2))))"

text \<open>
  In the English variant a \<^verbatim>\<open>SystemExit\<close> raised inside \<^verbatim>\<open>download\<close> or
  \<^verbatim>\<open>unzip\<close> passes the \<^verbatim>\<open>except Exception\<close> clause and ends the process with
  its own code.
\<close>

fun top_level :: "failure \<Rightarrow> state \<Rightarrow> int \<times> state" where
  "top_level (SystemExit n) st = (n, st)"
| "top_level (Raised e) st = (2, st\<lparr>out := out st @ [Failed e]\<rparr>)"

definition main_en :: "world \<Rightarrow> pystr list \<Rightarrow> state \<Rightarrow> int \<times> state" where
  "main_en w argv st =
     (if length argv \<noteq> 3 then (1, st\<lparr>out := out st @ [Usage]\<rparr>)
      else
        (case download_en w (argv ! 1) (argv ! 2) st of
           (Inl x, st1) \<Rightarrow> top_level x st1
         | (Inr _, st1) \<Rightarrow>
             (case unzip_en w (argv ! 2) st1 of
                (Inl x, st2) \<Rightarrow> top_level x st2
              | (Inr _, st2) \<Rightarrow> (0, st2))))"

section \<open>Two environments for the examples\<close>

text \<open>
  \<open>offline\<close>: every request raises a connection error (a \<^verbatim>\<open>RequestException\<close>) and
  \<^verbatim>\<open>zipfile\<close> accepts no file. \<open>fresh\<close>: no file yet, nothing printed.
\<close>

definition offline :: world where
  "offline =
     \<lparr>http_get_index = Inl RequestException,
      http_post_servers = (\<lambda>t c. Inl RequestException),
      http_send_next = (\<lambda>r. Inl RequestException),
      http_head = (\<lambda>u. Inl RequestException),
      http_get_stream = (\<lambda>u. Inl RequestException),
      soup = (\<lambda>t. []),
      w_urljoin = (\<lambda>b r. Inr r),
      py_int = (\<lambda>s. Inl ValueError),
      zip_open = (\<lambda>b. Inl BadZipFile)\<rparr>"

definition fresh :: state where
  "fresh = \<lparr>files = Map.empty, out = []\<rparr>"

section \<open>Properties of the regular expression matcher\<close>

text \<open>
  A greedy star followed by something that cannot start with a character of the class
  never gives a character back: it stops where the class stops.
\<close>

lemma star_greedy_dropWhile:
  assumes "\<And>x xs. P x \<Longrightarrow> k (x # xs) = None"
  shows "star_greedy P s k = k (dropWhile P s)"
proof (induction s)
  case Nil
  show ?case by simp
next
  case (Cons x xs)
  show ?case
  proof (cases "P x")
    case True
    with assms have "k (x # xs) = None" by simp
    with True Cons show ?thesis by (simp split: option.splits)
  next
    case False
    then show ?thesis by simp
  qed
qed

lemma take_length_dropWhile:
  "take (length t - length (dropWhile P t)) t = takeWhile P t"
proof -
  have "length t - length (dropWhile P t) = length (takeWhile P t)"
    by (metis add_diff_cancel_right' length_append takeWhile_dropWhile_id)
  then show ?thesis
    by (metis append_eq_conv_conj takeWhile_dropWhile_id)
qed

lemma prefix_dquote_dropWhile:
  "prefix [dquote] (dropWhile not_dquote t) \<longleftrightarrow> dquote \<in> set t"
  by (induction t) (auto simp: not_dquote_def)

lemma lit_dquote: \<open>lit ''"'' = [dquote]\<close>
  by (simp add: lit_def dquote_def)

lemma takeWhile_not_dquote:
  "dquote \<notin> set X \<Longrightarrow> takeWhile not_dquote (X @ dquote # post) = X"
  by (induction X) (auto simp: not_dquote_def)

text \<open>The tail \<^verbatim>\<open>([^"]*)"\<close> of the first two patterns captures up to the next quote.\<close>

lemma quoted_group:
  \<open>re_match (Seq (Group (Star not_dquote)) (Lit (lit ''"''))) t g (\<lambda>s' g'. Some g') =
     (if dquote \<in> set t then Some (Some (takeWhile not_dquote t)) else None)\<close>
proof -
  let ?k = "\<lambda>s'. if prefix [dquote] s' then Some (Some (take (length t - length s') t)) else None"
  have \<open>re_match (Seq (Group (Star not_dquote)) (Lit (lit ''"''))) t g (\<lambda>s' g'. Some g') =
      star_greedy not_dquote t ?k\<close>
    by (simp add: lit_dquote)
  also have "\<dots> = ?k (dropWhile not_dquote t)"
    by (rule star_greedy_dropWhile) (simp add: not_dquote_def)
  also have "\<dots> = (if dquote \<in> set t then Some (Some (takeWhile not_dquote t)) else None)"
    by (simp add: prefix_dquote_dropWhile take_length_dropWhile)
  finally show ?thesis .
qed

lemma re_match_Seq_Lit:
  "re_match (Seq (Lit l) r) s g k =
     (if prefix l s then re_match r (drop (length l) s) g k else None)"
  by simp

lemma data_u_match:
  \<open>re_match data_u_re s None (\<lambda>s' g. Some g) =
     (if prefix (lit ''data-u="'') s \<and> dquote \<in> set (drop 8 s)
      then Some (Some (takeWhile not_dquote (drop 8 s))) else None)\<close>
proof -
  have len: \<open>length (lit ''data-u="'') = 8\<close> by (simp add: lit_def)
  show ?thesis
    unfolding data_u_re_def by (simp only: re_match_Seq_Lit quoted_group len) simp
qed

text \<open>\<^verbatim>\<open>re.search\<close> returns the match at the first position that has one.\<close>

lemma re_search_first:
  assumes "\<forall>i<n. re_match r (drop i s) None (\<lambda>s' g. Some g) = None"
    and "n \<le> length s"
    and "re_match r (drop n s) None (\<lambda>s' g. Some g) = Some g"
  shows "re_search r s = Some g"
  using assms
proof (induction s arbitrary: n)
  case Nil
  then show ?case by simp
next
  case (Cons c cs)
  show ?case
  proof (cases n)
    case 0
    with Cons.prems show ?thesis by simp
  next
    case (Suc m)
    with Cons.prems have "re_match r (c # cs) None (\<lambda>s' g. Some g) = None"
      by (metis drop0 zero_less_Suc)
    moreover have "re_search r cs = Some g"
    proof (rule Cons.IH)
      show "\<forall>i<m. re_match r (drop i cs) None (\<lambda>s' g. Some g) = None"
        using Cons.prems(1) Suc by (metis Suc_less_eq drop_Suc_Cons)
      show "m \<le> length cs" using Cons.prems(2) Suc by simp
      show "re_match r (drop m cs) None (\<lambda>s' g. Some g) = Some g"
        using Cons.prems(3) Suc by simp
    qed
    ultimately show ?thesis by simp
  qed
qed

lemma re_search_some:
  assumes "n \<le> length s" and "re_match r (drop n s) None (\<lambda>s' g. Some g) = Some g"
  shows "\<exists>g'. re_search r s = Some g'"
  using assms
proof (induction s arbitrary: n)
  case Nil
  then show ?case by simp
next
  case (Cons c cs)
  show ?case
  proof (cases "re_match r (c # cs) None (\<lambda>s' g. Some g)")
    case (Some a)
    then show ?thesis by simp
  next
    case None
    with Cons.prems(2) obtain m where n: "n = Suc m" by (cases n) auto
    with Cons.prems have "m \<le> length cs" "re_match r (drop m cs) None (\<lambda>s' g. Some g) = Some g"
      by simp_all
    then obtain g' where "re_search r cs = Some g'" using Cons.IH by blast
    with None show ?thesis by simp
  qed
qed

lemma re_search_SomeD:
  "re_search r s = Some g \<Longrightarrow>
     \<exists>i\<le>length s. re_match r (drop i s) None (\<lambda>s' g. Some g) = Some g"
proof (induction s)
  case Nil
  then show ?case by simp
next
  case (Cons c cs)
  show ?case
  proof (cases "re_match r (c # cs) None (\<lambda>s' g. Some g)")
    case None
    with Cons.prems have "re_search r cs = Some g" by simp
    then obtain i where "i \<le> length cs" "re_match r (drop i cs) None (\<lambda>s' g. Some g) = Some g"
      using Cons.IH by blast
    then have "Suc i \<le> length (c # cs) \<and>
        re_match r (drop (Suc i) (c # cs)) None (\<lambda>s' g. Some g) = Some g"
      by simp
    then show ?thesis by blast
  next
    case (Some a)
    with Cons.prems have "re_match r (drop 0 (c # cs)) None (\<lambda>s' g. Some g) = Some g" by simp
    then show ?thesis by blast
  qed
qed

text \<open>
  The text \<open>l\<close> that follows \<open>pre\<close> is the first occurrence of \<open>l\<close> when \<open>l\<close> does
  not occur in \<open>pre\<close> followed by all but the last character of \<open>l\<close>.
\<close>

lemma first_occurrence:
  assumes "\<not> sublist l (pre @ butlast l)"
  shows "\<forall>i<length pre. \<not> prefix l (drop i (pre @ l @ rest))"
proof (intro allI impI notI)
  fix i
  assume i: "i < length pre" and p: "prefix l (drop i (pre @ l @ rest))"
  let ?t = "drop i pre"
  from i have t: "?t \<noteq> []" by simp
  from i p have p': "prefix l (?t @ l @ rest)" by simp
  have "prefix (butlast l) l" by (simp add: prefixeq_butlast)
  then have "prefix (butlast l) (l @ rest)" by (metis prefix_prefix)
  then have q: "prefix (?t @ butlast l) (?t @ l @ rest)" by simp
  have "length l \<le> length (?t @ butlast l)"
    using t by (cases ?t) auto
  with p' q have "prefix l (?t @ butlast l)"
    by (rule prefix_length_prefix)
  then obtain ss where "?t @ butlast l = l @ ss" by (auto simp: prefix_def)
  then have "pre @ butlast l = take i pre @ l @ ss"
    by (metis append_assoc append_take_drop_id)
  then have "sublist l (pre @ butlast l)" by (auto simp: sublist_def)
  with assms show False by simp
qed

section \<open>Rule (a): the \<^verbatim>\<open>data-u\<close> attribute\<close>

lemma data_u_search_first:
  assumes \<open>html = pre @ lit ''data-u="'' @ X @ lit ''"'' @ post\<close>
    and "dquote \<notin> set X"
    and \<open>\<forall>i<length pre. \<not> prefix (lit ''data-u="'') (drop i html)\<close>
  shows "re_search data_u_re html = Some (Some X)"
proof (rule re_search_first [where n = "length pre"])
  show "\<forall>i<length pre. re_match data_u_re (drop i html) None (\<lambda>s' g. Some g) = None"
    using assms(3) by (simp add: data_u_match)
  show "length pre \<le> length html"
    using assms(1) by simp
  have len: \<open>length (lit ''data-u="'') = 8\<close> by (simp add: lit_def)
  have \<open>drop (length pre) html = lit ''data-u="'' @ X @ dquote # post\<close>
    using assms(1) by (simp add: lit_dquote)
  moreover have \<open>drop 8 (lit ''data-u="'' @ X @ dquote # post) = X @ dquote # post\<close>
    using len by simp
  ultimately show "re_match data_u_re (drop (length pre) html) None (\<lambda>s' g. Some g) = Some (Some X)"
    using assms(2) by (simp add: data_u_match takeWhile_not_dquote)
qed

text \<open>A body that contains a \<^verbatim>\<open>data-u\<close> attribute is matched by rule (a), with its group set.\<close>

lemma data_u_search_some:
  assumes \<open>html = pre @ lit ''data-u="'' @ X @ lit ''"'' @ post\<close>
  shows "\<exists>X0. re_search data_u_re html = Some (Some X0)"
proof -
  have len: \<open>length (lit ''data-u="'') = 8\<close> by (simp add: lit_def)
  have d: \<open>drop (length pre) html = lit ''data-u="'' @ X @ dquote # post\<close>
    using assms by (simp add: lit_dquote)
  have \<open>drop 8 (lit ''data-u="'' @ X @ dquote # post) = X @ dquote # post\<close>
    using len by simp
  then have "re_match data_u_re (drop (length pre) html) None (\<lambda>s' g. Some g) =
      Some (Some (takeWhile not_dquote (X @ dquote # post)))"
    unfolding d by (simp add: data_u_match)
  moreover have "length pre \<le> length html" using assms by simp
  ultimately obtain g where g: "re_search data_u_re html = Some g"
    using re_search_some by blast
  then obtain i where "re_match data_u_re (drop i html) None (\<lambda>s' g. Some g) = Some g"
    using re_search_SomeD by blast
  then obtain X0 where "g = Some X0"
    by (auto simp: data_u_match split: if_splits)
  with g show ?thesis by blast
qed

lemma set_replace: "set (replace old new s) \<subseteq> set s \<union> set new"
proof (induction old new s rule: replace.induct)
  case (1 old new s)
  show ?case
  proof (cases "old = []")
    case True
    then show ?thesis by (subst replace.simps) auto
  next
    case False
    show ?thesis
    proof (cases "prefix old s")
      case True
      have "set (drop (length old) s) \<subseteq> set s" by (rule set_drop_subset)
      with 1(1) [OF False True] have "set (replace old new (drop (length old) s)) \<subseteq> set s \<union> set new"
        by blast
      with False True show ?thesis by (subst replace.simps) simp
    next
      case np: False
      show ?thesis
      proof (cases s)
        case Nil
        with False np show ?thesis by (subst replace.simps) simp
      next
        case (Cons c cs)
        with 1(2) [OF False np Cons] False np show ?thesis
          by (subst replace.simps) auto
      qed
    qed
  qed
qed

lemma strip_id:
  assumes "set chars \<inter> set s = {}"
  shows "strip chars s = s"
proof -
  have keep: "dropWhile (\<lambda>c. c \<in> set chars) t = t" if "set chars \<inter> set t = {}" for t
    using that by (cases t) auto
  have "dropWhile (\<lambda>c. c \<in> set chars) s = s"
    using assms by (rule keep)
  moreover have "dropWhile (\<lambda>c. c \<in> set chars) (rev s) = rev s"
    using assms by (intro keep) simp
  ultimately show ?thesis by (simp add: strip_def)
qed

lemma replace_Nil: "old \<noteq> [] \<Longrightarrow> replace old new [] = []"
  by (subst replace.simps) simp

lemma data_u_value_no_dquote:
  assumes "dquote \<notin> set X"
  shows \<open>dquote \<notin> set (replace (lit ''&quot;'') [] (replace esc_slash (lit ''/'') X))\<close>
proof -
  have \<open>set (replace esc_slash (lit ''/'') X) \<subseteq> set X \<union> set (lit ''/'')\<close>
    by (rule set_replace)
  moreover have \<open>dquote \<notin> set (lit ''/'')\<close> by (simp add: lit_def dquote_def)
  ultimately have \<open>dquote \<notin> set (replace esc_slash (lit ''/'') X)\<close>
    using assms by blast
  moreover have \<open>set (replace (lit ''&quot;'') [] (replace esc_slash (lit ''/'') X))
      \<subseteq> set (replace esc_slash (lit ''/'') X) \<union> set []\<close>
    by (rule set_replace)
  ultimately show ?thesis by auto
qed

section \<open>Rule (b): the \<^verbatim>\<open>window.location.href\<close> assignment\<close>

lemma re_search_None:
  assumes "\<And>t. \<not> prefix l t \<Longrightarrow> re_match r t None (\<lambda>s' g. Some g) = None"
    and "\<not> sublist l s"
  shows "re_search r s = None"
  using assms(2)
proof (induction s)
  case Nil
  then have "\<not> prefix l []" by (metis prefix_imp_sublist)
  then show ?case by (simp add: assms(1))
next
  case (Cons c cs)
  then have "\<not> prefix l (c # cs)" by (metis prefix_imp_sublist)
  then have "re_match r (c # cs) None (\<lambda>s' g. Some g) = None" by (rule assms(1))
  moreover have "\<not> sublist l cs" using Cons.prems by (metis sublist_Cons_right)
  ultimately show ?case using Cons.IH by simp
qed

lemma dropWhile_spaces:
  "\<forall>c\<in>set ws. P c \<Longrightarrow> \<not> P a \<Longrightarrow> dropWhile P (ws @ a # rest) = a # rest"
  by (induction ws) auto

lemma space_then_lit:
  assumes "\<not> is_space a"
  shows "re_match (Seq (Star is_space) (Seq (Lit (a # l)) r)) s g k =
     re_match (Seq (Lit (a # l)) r) (dropWhile is_space s) g k"
proof -
  have "re_match (Seq (Star is_space) (Seq (Lit (a # l)) r)) s g k =
      star_greedy is_space s (\<lambda>s'. re_match (Seq (Lit (a # l)) r) s' g k)"
    by simp
  also have "\<dots> = re_match (Seq (Lit (a # l)) r) (dropWhile is_space s) g k"
  proof (rule star_greedy_dropWhile)
    fix x xs
    assume "is_space x"
    with assms have "x \<noteq> a" by auto
    then show "re_match (Seq (Lit (a # l)) r) (x # xs) g k = None" by simp
  qed
  finally show ?thesis .
qed

lemma location_no_match:
  \<open>\<not> prefix (lit ''window.location.href'') s \<Longrightarrow>
     re_match location_re s None (\<lambda>s' g. Some g) = None\<close>
  unfolding location_re_def by (simp only: re_match_Seq_Lit if_False)

lemma location_match_at:
  assumes "\<forall>c\<in>set ws1. is_space c" and "\<forall>c\<in>set ws2. is_space c" and "dquote \<notin> set Y"
  shows \<open>re_match location_re
      (lit ''window.location.href'' @ ws1 @ lit ''='' @ ws2 @ lit ''"'' @ Y @ lit ''"'' @ post)
      None (\<lambda>s' g. Some g) = Some (Some Y)\<close>
proof -
  let ?q = \<open>Seq (Group (Star not_dquote)) (Lit (lit ''"''))\<close>
  have eq: \<open>lit ''='' = [61]\<close> and dq: \<open>lit ''"'' = [34]\<close>
    by (simp_all add: lit_def)
  have ns: "\<not> is_space 61" "\<not> is_space 34"
    by (simp_all add: is_space_def)
  have \<open>re_match location_re
      (lit ''window.location.href'' @ ws1 @ lit ''='' @ ws2 @ lit ''"'' @ Y @ lit ''"'' @ post)
      None (\<lambda>s' g. Some g) =
    re_match (Seq (Star is_space) (Seq (Lit [61]) (Seq (Star is_space) (Seq (Lit [34]) ?q))))
      (ws1 @ 61 # ws2 @ 34 # Y @ 34 # post) None (\<lambda>s' g. Some g)\<close>
    unfolding location_re_def by (simp only: re_match_Seq_Lit) (simp add: eq dq)
  also have \<open>\<dots> = re_match (Seq (Lit [61]) (Seq (Star is_space) (Seq (Lit [34]) ?q)))
      (61 # ws2 @ 34 # Y @ 34 # post) None (\<lambda>s' g. Some g)\<close>
    by (simp only: space_then_lit [OF ns(1)] dropWhile_spaces [OF assms(1) ns(1)])
  also have \<open>\<dots> = re_match (Seq (Star is_space) (Seq (Lit [34]) ?q))
      (ws2 @ 34 # Y @ 34 # post) None (\<lambda>s' g. Some g)\<close>
    by (simp only: re_match_Seq_Lit) simp
  also have \<open>\<dots> = re_match (Seq (Lit [34]) ?q) (34 # Y @ 34 # post) None (\<lambda>s' g. Some g)\<close>
    by (simp only: space_then_lit [OF ns(2)] dropWhile_spaces [OF assms(2) ns(2)])
  also have \<open>\<dots> = re_match ?q (Y @ dquote # post) None (\<lambda>s' g. Some g)\<close>
    by (simp only: re_match_Seq_Lit) (simp add: dquote_def)
  also have "\<dots> = Some (Some Y)"
    using assms(3) by (simp only: quoted_group) (simp add: takeWhile_not_dquote)
  finally show ?thesis .
qed

lemma location_search_at:
  assumes \<open>html = pre @ lit ''window.location.href'' @ ws1 @ lit ''='' @ ws2 @ lit ''"'' @ Y @ lit ''"'' @ post\<close>
    and "\<forall>c\<in>set ws1. is_space c" and "\<forall>c\<in>set ws2. is_space c" and "dquote \<notin> set Y"
    and "\<forall>i<length pre. re_match location_re (drop i html) None (\<lambda>s' g. Some g) = None"
  shows "re_search location_re html = Some (Some Y)"
proof (rule re_search_first [where n = "length pre"])
  show "\<forall>i<length pre. re_match location_re (drop i html) None (\<lambda>s' g. Some g) = None"
    by (rule assms(5))
  show "length pre \<le> length html"
    using assms(1) by simp
  have \<open>drop (length pre) html =
      lit ''window.location.href'' @ ws1 @ lit ''='' @ ws2 @ lit ''"'' @ Y @ lit ''"'' @ post\<close>
    using assms(1) by simp
  then show "re_match location_re (drop (length pre) html) None (\<lambda>s' g. Some g) = Some (Some Y)"
    by (simp only: location_match_at [OF assms(2-4)])
qed

lemma location_search_first:
  assumes \<open>html = pre @ lit ''window.location.href'' @ ws1 @ lit ''='' @ ws2 @ lit ''"'' @ Y @ lit ''"'' @ post\<close>
    and "\<forall>c\<in>set ws1. is_space c" and "\<forall>c\<in>set ws2. is_space c" and "dquote \<notin> set Y"
    and \<open>\<forall>i<length pre. \<not> prefix (lit ''window.location.href'') (drop i html)\<close>
  shows "re_search location_re html = Some (Some Y)"
  using assms(1-4)
proof (rule location_search_at)
  show "\<forall>i<length pre. re_match location_re (drop i html) None (\<lambda>s' g. Some g) = None"
    using assms(5) by (simp add: location_no_match)
qed

lemma location_search_None:
  \<open>\<not> sublist (lit ''window.location.href'') s \<Longrightarrow> re_search location_re s = None\<close>
  by (rule re_search_None [where l = \<open>lit ''window.location.href''\<close>]) (rule location_no_match)

lemma data_u_search_None:
  \<open>\<not> sublist (lit ''data-u="'') s \<Longrightarrow> re_search data_u_re s = None\<close>
  by (rule re_search_None [where l = \<open>lit ''data-u="''\<close>]) (simp add: data_u_match)

lemma anchor_search_None:
  \<open>\<not> sublist (lit ''<a'') s \<Longrightarrow> re_search anchor_re s = None\<close>
  by (rule re_search_None [where l = \<open>lit ''<a''\<close>])
    (simp only: anchor_re_def re_match_Seq_Lit if_False)

lemma extract_link_location:
  assumes "re_search data_u_re html = None"
    and \<open>html = pre @ lit ''window.location.href'' @ ws1 @ lit ''='' @ ws2 @ lit ''"'' @ Y @ lit ''"'' @ post\<close>
    and "\<forall>c\<in>set ws1. is_space c" and "\<forall>c\<in>set ws2. is_space c" and "dquote \<notin> set Y"
    and "\<forall>i<length pre. re_match location_re (drop i html) None (\<lambda>s' g. Some g) = None"
  shows \<open>extract_link urljoin resp_url html = urljoin resp_url (replace esc_slash (lit ''/'') Y)\<close>
  using assms(1) location_search_at [OF assms(2-6)]
  by (simp add: extract_link_def group1_def)

section \<open>Rule (a) decides when it matches\<close>

text \<open>
  Claim C1. Every body that contains an attribute \<^verbatim>\<open>data-u="X"\<close> is matched by rule
  (a), and the extractor returns the processed value of the attribute that the pattern
  matches, whatever the rest of the body holds, and so also when a
  \<^verbatim>\<open>window.location.href\<close> assignment or an anchor to \<^verbatim>\<open>/stream/\<close>, \<^verbatim>\<open>/get/\<close> or
  \<^verbatim>\<open>/browser/\<close> is present. The attribute matched is the first of the body: its
  value is \<open>X\<close> when nothing before \<^verbatim>\<open>data-u="X"\<close> starts with \<^verbatim>\<open>data-u="\<close>.
\<close>

theorem data_u_priority:
  assumes \<open>html = pre @ lit ''data-u="'' @ X @ lit ''"'' @ post\<close>
  shows \<open>\<exists>X0. re_search data_u_re html = Some (Some X0) \<and>
     extract_link urljoin resp_url html =
       Inr (strip (lit ''"'') (replace (lit ''&quot;'') [] (replace esc_slash (lit ''/'') X0))) \<and>
     (dquote \<notin> set X \<and> (\<forall>i<length pre. \<not> prefix (lit ''data-u="'') (drop i html)) \<longrightarrow> X0 = X)\<close>
proof -
  obtain X0 where m: "re_search data_u_re html = Some (Some X0)"
    using data_u_search_some [OF assms] by blast
  then have \<open>extract_link urljoin resp_url html =
       Inr (strip (lit ''"'') (replace (lit ''&quot;'') [] (replace esc_slash (lit ''/'') X0)))\<close>
    by (simp add: extract_link_def group1_def)
  moreover have "X0 = X"
    if \<open>dquote \<notin> set X \<and> (\<forall>i<length pre. \<not> prefix (lit ''data-u="'') (drop i html))\<close>
    using data_u_search_first [OF assms] that m by simp
  ultimately show ?thesis using m by blast
qed

text \<open>
  The body of the witness has an anchor to \<^verbatim>\<open>/get/x\<close> and an assignment to
  \<^verbatim>\<open>window.location.href\<close> in front of the attribute: both other rules match it.
\<close>

theorem data_u_priority_witness:
  \<open>re_search location_re
      (lit ''<a href="/get/x"><script>window.location.href = "/y"</script><i '' @ lit ''data-u="'' @
       (lit ''https:'' @ esc_slash @ esc_slash @ lit ''h'' @ esc_slash @ lit ''z'') @ lit ''"'' @ lit ''></i>'')
      = Some (Some (lit ''/y'')) \<and>
   re_search anchor_re
      (lit ''<a href="/get/x"><script>window.location.href = "/y"</script><i '' @ lit ''data-u="'' @
       (lit ''https:'' @ esc_slash @ esc_slash @ lit ''h'' @ esc_slash @ lit ''z'') @ lit ''"'' @ lit ''></i>'')
      = Some (Some (lit ''/get/x'')) \<and>
   extract_link (\<lambda>b r. Inr (b @ r)) (lit ''https://h/p'')
     (lit ''<a href="/get/x"><script>window.location.href = "/y"</script><i '' @ lit ''data-u="'' @
       (lit ''https:'' @ esc_slash @ esc_slash @ lit ''h'' @ esc_slash @ lit ''z'') @ lit ''"'' @ lit ''></i>'')
     = Inr (lit ''https://h/z'')\<close>
proof -
  let ?pre = \<open>lit ''<a href="/get/x"><script>window.location.href = "/y"</script><i ''\<close>
  let ?X = \<open>lit ''https:'' @ esc_slash @ esc_slash @ lit ''h'' @ esc_slash @ lit ''z''\<close>
  let ?post = \<open>lit ''></i>''\<close>
  let ?html = \<open>?pre @ lit ''data-u="'' @ ?X @ lit ''"'' @ ?post\<close>
  have h2: "dquote \<notin> set ?X"
    by (simp add: lit_def dquote_def esc_slash_def)
  have \<open>\<not> sublist (lit ''data-u="'') (?pre @ butlast (lit ''data-u="''))\<close>
    by code_simp
  then have h3: \<open>\<forall>i<length ?pre. \<not> prefix (lit ''data-u="'') (drop i ?html)\<close>
    by (rule first_occurrence)
  have r: \<open>strip (lit ''"'') (replace (lit ''&quot;'') [] (replace esc_slash (lit ''/'') ?X)) = lit ''https://h/z''\<close>
    by code_simp
  have b: \<open>re_search location_re ?html = Some (Some (lit ''/y''))\<close>
  proof -
    let ?p = \<open>lit ''<a href="/get/x"><script>''\<close>
    let ?rest = \<open>lit ''</script><i data-u="https:'' @ esc_slash @ esc_slash @ lit ''h'' @ esc_slash
      @ lit ''z"></i>''\<close>
    have e: \<open>?html = ?p @ lit ''window.location.href'' @ lit '' '' @ lit ''='' @ lit '' '' @ lit ''"''
        @ lit ''/y'' @ lit ''"'' @ ?rest\<close>
      by (simp add: lit_def)
    have s: \<open>\<forall>c\<in>set (lit '' ''). is_space c\<close>
      by (simp add: lit_def is_space_def)
    have q: \<open>dquote \<notin> set (lit ''/y'')\<close>
      by (simp add: lit_def dquote_def)
    have \<open>\<not> sublist (lit ''window.location.href'') (?p @ butlast (lit ''window.location.href''))\<close>
      by code_simp
    then have f: \<open>\<forall>i<length ?p. \<not> prefix (lit ''window.location.href'')
        (drop i (?p @ lit ''window.location.href'' @ lit '' '' @ lit ''='' @ lit '' '' @ lit ''"''
          @ lit ''/y'' @ lit ''"'' @ ?rest))\<close>
      by (rule first_occurrence)
    show ?thesis
      unfolding e by (rule location_search_first [OF refl s s q f])
  qed
  have c: \<open>re_search anchor_re ?html = Some (Some (lit ''/get/x''))\<close>
    by code_simp
  obtain X0 where e: \<open>extract_link (\<lambda>b r. Inr (b @ r)) (lit ''https://h/p'') ?html =
       Inr (strip (lit ''"'') (replace (lit ''&quot;'') [] (replace esc_slash (lit ''/'') X0)))\<close>
    and i: \<open>dquote \<notin> set ?X \<and> (\<forall>i<length ?pre. \<not> prefix (lit ''data-u="'') (drop i ?html)) \<longrightarrow>
      X0 = ?X\<close>
    using data_u_priority [where urljoin = "\<lambda>b r. Inr (b @ r)" and resp_url = \<open>lit ''https://h/p''\<close>
        and pre = ?pre and X = ?X and post = ?post, OF refl]
    by (elim exE conjE)
  have "X0 = ?X" by (rule mp [OF i]) (intro conjI h2 h3)
  with e have \<open>extract_link (\<lambda>b r. Inr (b @ r)) (lit ''https://h/p'') ?html = Inr (lit ''https://h/z'')\<close>
    by (simp only: r)
  with b c show ?thesis by (intro conjI)
qed

text \<open>
  Claim C2. The value that rule (a) returns for the attribute value \<open>X\<close> is \<open>X\<close> with
  every \<^verbatim>\<open>\/\<close> (scanning from the left) replaced by \<^verbatim>\<open>/\<close> and every
  \<^verbatim>\<open>&quot;\<close> removed, and it contains no double quote, so that the final
  \<^verbatim>\<open>strip('"')\<close> finds nothing to remove. The witness is the input of the claim:
  \<^verbatim>\<open>data-u="https:\/\/cdn.example.com\/get\/abc"\<close> gives
  \<^verbatim>\<open>https://cdn.example.com/get/abc\<close>.
\<close>

theorem data_u_value_unescaped:
  assumes \<open>html = pre @ lit ''data-u="'' @ X @ lit ''"'' @ post\<close>
    and "dquote \<notin> set X"
    and \<open>\<forall>i<length pre. \<not> prefix (lit ''data-u="'') (drop i html)\<close>
  shows \<open>extract_link urljoin resp_url html =
       Inr (replace (lit ''&quot;'') [] (replace esc_slash (lit ''/'') X)) \<and>
     dquote \<notin> set (replace (lit ''&quot;'') [] (replace esc_slash (lit ''/'') X))\<close>
proof -
  let ?v = \<open>replace (lit ''&quot;'') [] (replace esc_slash (lit ''/'') X)\<close>
  have nq: "dquote \<notin> set ?v"
    using assms(2) by (rule data_u_value_no_dquote)
  then have \<open>set (lit ''"'') \<inter> set ?v = {}\<close>
    by (simp add: lit_dquote)
  then have \<open>strip (lit ''"'') ?v = ?v\<close>
    by (rule strip_id)
  moreover have "re_search data_u_re html = Some (Some X)"
    using assms by (rule data_u_search_first)
  ultimately have "extract_link urljoin resp_url html = Inr ?v"
    by (simp add: extract_link_def group1_def)
  with nq show ?thesis by simp
qed

theorem data_u_value_unescaped_witness:
  \<open>extract_link (\<lambda>b r. Inr (b @ r)) (lit ''https://www.a.cpfrx.info/servers'')
     ([] @ lit ''data-u="'' @
       (lit ''https:'' @ esc_slash @ esc_slash @ lit ''cdn.example.com'' @ esc_slash @ lit ''get''
          @ esc_slash @ lit ''abc'') @ lit ''"'' @ [])
     = Inr (lit ''https://cdn.example.com/get/abc'')\<close>
proof -
  let ?X = \<open>lit ''https:'' @ esc_slash @ esc_slash @ lit ''cdn.example.com'' @ esc_slash @ lit ''get''
          @ esc_slash @ lit ''abc''\<close>
  have h2: "dquote \<notin> set ?X"
    by (simp add: lit_def dquote_def esc_slash_def)
  have h3: \<open>\<forall>i<length ([]::pystr). \<not> prefix (lit ''data-u="'') (drop i ([] @ lit ''data-u="'' @ ?X @ lit ''"'' @ []))\<close>
    by simp
  have r: \<open>replace (lit ''&quot;'') [] (replace esc_slash (lit ''/'') ?X) = lit ''https://cdn.example.com/get/abc''\<close>
    by code_simp
  show ?thesis
    using data_u_value_unescaped [OF refl h2 h3] by (simp only: r)
qed

text \<open>
  Claim C10. A body that contains an empty attribute \<^verbatim>\<open>data-u=""\<close> is matched by
  rule (a), which decides: rules (b) and (c) are not consulted, whatever the body
  holds. When the empty attribute is the first place where \<^verbatim>\<open>data-u="\<close> occurs, the
  group is empty and the extractor returns the empty text.
\<close>

theorem empty_data_u_returns_empty:
  assumes \<open>html = pre @ lit ''data-u=""'' @ post\<close>
  shows \<open>(\<exists>X0. re_search data_u_re html = Some (Some X0) \<and>
       extract_link urljoin resp_url html =
         Inr (strip (lit ''"'') (replace (lit ''&quot;'') [] (replace esc_slash (lit ''/'') X0)))) \<and>
     ((\<forall>i<length pre. \<not> prefix (lit ''data-u="'') (drop i html)) \<longrightarrow>
       re_search data_u_re html = Some (Some []) \<and> extract_link urljoin resp_url html = Inr [])\<close>
proof -
  have \<open>lit ''data-u=""'' = lit ''data-u="'' @ [] @ lit ''"''\<close>
    by (simp add: lit_def)
  with assms have h: \<open>html = pre @ lit ''data-u="'' @ [] @ lit ''"'' @ post\<close>
    by simp
  obtain X0 where m: "re_search data_u_re html = Some (Some X0)"
    using data_u_search_some [OF h] by blast
  then have a: \<open>extract_link urljoin resp_url html =
       Inr (strip (lit ''"'') (replace (lit ''&quot;'') [] (replace esc_slash (lit ''/'') X0)))\<close>
    by (simp add: extract_link_def group1_def)
  have b: "re_search data_u_re html = Some (Some []) \<and> extract_link urljoin resp_url html = Inr []"
    if f: \<open>\<forall>i<length pre. \<not> prefix (lit ''data-u="'') (drop i html)\<close>
  proof -
    have e: "re_search data_u_re html = Some (Some [])"
      using h _ f by (rule data_u_search_first) simp
    have \<open>replace (lit ''&quot;'') [] (replace esc_slash (lit ''/'') []) = []\<close>
      by (simp add: replace_Nil lit_def esc_slash_def)
    then have "extract_link urljoin resp_url html = Inr []"
      using e by (simp add: extract_link_def group1_def strip_def)
    with e show ?thesis by simp
  qed
  from m a b show ?thesis by blast
qed

theorem empty_data_u_returns_empty_witness:
  \<open>re_search location_re
      (lit ''<script>window.location.href="/next"</script><a href="/stream/1">go</a><b '' @ lit ''data-u=""'' @ lit ''>'')
      = Some (Some (lit ''/next'')) \<and>
   re_search anchor_re
      (lit ''<script>window.location.href="/next"</script><a href="/stream/1">go</a><b '' @ lit ''data-u=""'' @ lit ''>'')
      = Some (Some (lit ''/stream/1'')) \<and>
   extract_link (\<lambda>b r. Inr (b @ r)) (lit ''https://h/p'')
      (lit ''<script>window.location.href="/next"</script><a href="/stream/1">go</a><b '' @ lit ''data-u=""'' @ lit ''>'')
      = Inr []\<close>
proof -
  let ?pre = \<open>lit ''<script>window.location.href="/next"</script><a href="/stream/1">go</a><b ''\<close>
  let ?html = \<open>?pre @ lit ''data-u=""'' @ lit ''>''\<close>
  have \<open>\<not> sublist (lit ''data-u="'') (?pre @ butlast (lit ''data-u="''))\<close>
    by code_simp
  then have \<open>\<forall>i<length ?pre. \<not> prefix (lit ''data-u="'') (drop i (?pre @ lit ''data-u="'' @ (lit ''"'' @ lit ''>'')))\<close>
    by (rule first_occurrence)
  moreover have \<open>?pre @ lit ''data-u="'' @ (lit ''"'' @ lit ''>'') = ?html\<close>
    by (simp add: lit_def)
  ultimately have h2: \<open>\<forall>i<length ?pre. \<not> prefix (lit ''data-u="'') (drop i ?html)\<close>
    by (simp only:)
  have b: \<open>re_search location_re ?html = Some (Some (lit ''/next''))\<close>
  proof -
    let ?p = \<open>lit ''<script>''\<close>
    let ?rest = \<open>lit ''</script><a href="/stream/1">go</a><b data-u="">''\<close>
    have e: \<open>?html = ?p @ lit ''window.location.href'' @ [] @ lit ''='' @ [] @ lit ''"''
        @ lit ''/next'' @ lit ''"'' @ ?rest\<close>
      by (simp add: lit_def)
    have s: \<open>\<forall>c\<in>set ([]::pystr). is_space c\<close>
      by simp
    have q: \<open>dquote \<notin> set (lit ''/next'')\<close>
      by (simp add: lit_def dquote_def)
    have \<open>\<not> sublist (lit ''window.location.href'') (?p @ butlast (lit ''window.location.href''))\<close>
      by code_simp
    then have f: \<open>\<forall>i<length ?p. \<not> prefix (lit ''window.location.href'')
        (drop i (?p @ lit ''window.location.href'' @ [] @ lit ''='' @ [] @ lit ''"''
          @ lit ''/next'' @ lit ''"'' @ ?rest))\<close>
      by (rule first_occurrence)
    show ?thesis
      unfolding e by (rule location_search_first [OF refl s s q f])
  qed
  have c: \<open>re_search anchor_re ?html = Some (Some (lit ''/stream/1''))\<close>
    by code_simp
  note t = empty_data_u_returns_empty [where urljoin = "\<lambda>b r. Inr (b @ r)"
        and resp_url = \<open>lit ''https://h/p''\<close> and pre = ?pre and post = \<open>lit ''>''\<close>, OF refl]
  have \<open>extract_link (\<lambda>b r. Inr (b @ r)) (lit ''https://h/p'') ?html = Inr []\<close>
    by (rule conjunct2 [OF mp [OF conjunct2 [OF t] h2]])
  with b c show ?thesis by (intro conjI)
qed

section \<open>Resolution against an absolute base\<close>

lemma replace_single: "replace [c] [] s = filter (\<lambda>x. x \<noteq> c) s"
proof (induction s)
  case Nil
  show ?case by (subst replace.simps) simp
next
  case (Cons x xs)
  then show ?case by (subst replace.simps) simp
qed

lemma remove_unsafe_bytes_filter:
  "remove_unsafe_bytes s = filter (\<lambda>x. x \<noteq> 9 \<and> x \<noteq> 13 \<and> x \<noteq> 10) s"
  by (induction s) (simp_all add: remove_unsafe_bytes_def replace_single)

lemma remove_unsafe_bytes_set:
  "x \<in> set (remove_unsafe_bytes s) \<Longrightarrow> x \<noteq> 9 \<and> x \<noteq> 10 \<and> x \<noteq> 13"
  by (simp add: remove_unsafe_bytes_filter)

text \<open>What \<^verbatim>\<open>urlsplit\<close> does with the two schemes in front of a host.\<close>

lemma clean_http:
  assumes "c \<noteq> 9" "c \<noteq> 10" "c \<noteq> 13"
  shows "remove_unsafe_bytes (lstrip c0_control_or_space (lit ''http://'' @ c # t)) =
     lit ''http://'' @ c # remove_unsafe_bytes t"
  using assms by (simp add: remove_unsafe_bytes_filter lstrip_def c0_control_or_space_def lit_def)

lemma clean_https:
  assumes "c \<noteq> 9" "c \<noteq> 10" "c \<noteq> 13"
  shows "remove_unsafe_bytes (lstrip c0_control_or_space (lit ''https://'' @ c # t)) =
     lit ''https://'' @ c # remove_unsafe_bytes t"
  using assms by (simp add: remove_unsafe_bytes_filter lstrip_def c0_control_or_space_def lit_def)

lemma split_scheme_http:
  "split_scheme (lit ''http://'' @ t) = Some (lit ''http'', lit ''//'' @ t)"
  by (simp add: split_scheme_def split_once_def lit_def is_ascii_alpha_def scheme_chars_def
      ascii_lower_def)

lemma split_scheme_https:
  "split_scheme (lit ''https://'' @ t) = Some (lit ''https'', lit ''//'' @ t)"
  by (simp add: split_scheme_def split_once_def lit_def is_ascii_alpha_def scheme_chars_def
      ascii_lower_def)

text \<open>The scheme and the authority that \<^verbatim>\<open>urlsplit\<close> returns.\<close>

lemma py_urlsplit_scheme_netloc:
  assumes "py_urlsplit lib url0 scheme0 = Inr (bs, bn, bp, bq, bf)"
    and "(case split_scheme (remove_unsafe_bytes (lstrip c0_control_or_space url0)) of
            Some sr \<Rightarrow> sr
          | None \<Rightarrow> (remove_unsafe_bytes (strip c0_control_or_space scheme0),
                      remove_unsafe_bytes (lstrip c0_control_or_space url0))) = (s, url2)"
  shows "bs = s \<and> bn = (if take 2 url2 = lit ''//'' then fst (splitnetloc url2) else [])"
proof -
  obtain netloc url3 where nu:
    "(if take 2 url2 = lit ''//'' then splitnetloc url2 else ([], url2)) = (netloc, url3)"
    by (cases "if take 2 url2 = lit ''//'' then splitnetloc url2 else ([], url2)")
  obtain url4 fragment where uf:
    "(if 35 \<in> set url3 then split_once 35 url3 else (url3, [])) = (url4, fragment)"
    by (cases "if 35 \<in> set url3 then split_once 35 url3 else (url3, [])")
  obtain url5 query where uq:
    "(if 63 \<in> set url4 then split_once 63 url4 else (url4, [])) = (url5, query)"
    by (cases "if 63 \<in> set url4 then split_once 63 url4 else (url4, [])")
  have "py_urlsplit lib url0 scheme0 =
      (case (if take 2 url2 = lit ''//'' then check_brackets lib netloc else Inr ()) of
         Inl e \<Rightarrow> Inl e
       | Inr _ \<Rightarrow>
           (case checknetloc lib netloc of
              Inl e \<Rightarrow> Inl e
            | Inr _ \<Rightarrow> Inr (s, netloc, url5, query, fragment)))"
    unfolding py_urlsplit_def Let_def
    by (simp only: assms(2) prod.case nu uf uq)
  with assms(1) have "bs = s \<and> bn = netloc"
    by (auto split: sum.splits)
  moreover have "netloc = (if take 2 url2 = lit ''//'' then fst (splitnetloc url2) else [])"
    using nu by (auto split: if_splits)
  ultimately show ?thesis by simp
qed

lemma py_urlparse_split:
  assumes "py_urlparse lib url0 scheme0 = Inr (bs, bn, bp, bpa, bq, bf)"
  shows "\<exists>p q f. py_urlsplit lib url0 scheme0 = Inr (bs, bn, p, q, f)"
  using assms unfolding py_urlparse_def Let_def
  by (auto split: sum.splits prod.splits if_splits)

lemma host_start_Cons:
  "host_start s \<Longrightarrow> \<exists>c t. s = c # t \<and> \<not> delimiter c \<and> c \<noteq> 9 \<and> c \<noteq> 10 \<and> c \<noteq> 13"
  by (cases s) (simp_all add: host_start_def)

lemma splitnetloc_host:
  "\<not> delimiter c \<Longrightarrow>
     fst (splitnetloc (lit ''//'' @ c # t)) = c # takeWhile (\<lambda>x. \<not> delimiter x) t"
  by (simp add: splitnetloc_def lit_def)

lemma take2_slashes: "take 2 (lit ''//'' @ t) = lit ''//''"
  by (simp add: lit_def)

text \<open>An absolute base parses into its scheme and a host.\<close>

lemma base_parse:
  assumes "absolute_http base"
    and "py_urlparse lib base [] = Inr (bs, bn, bp, bpa, bq, bf)"
  shows "(bs = lit ''http'' \<or> bs = lit ''https'') \<and> host_start bn"
proof -
  obtain p q f where sp: "py_urlsplit lib base [] = Inr (bs, bn, p, q, f)"
    using py_urlparse_split [OF assms(2)] by blast
  from assms(1) consider
      (http) "prefix (lit ''http://'') base" "host_start (drop 7 base)"
    | (https) "prefix (lit ''https://'') base" "host_start (drop 8 base)"
    by (auto simp: absolute_http_def)
  then show ?thesis
  proof cases
    case http
    have len: "length (lit ''http://'') = 7" by (simp add: lit_def)
    from http(1) obtain rest where b: "base = lit ''http://'' @ rest"
      by (auto simp: prefix_def)
    with http(2) len have "host_start rest" by simp
    then obtain c t where r: "rest = c # t" and c: "\<not> delimiter c" "c \<noteq> 9" "c \<noteq> 10" "c \<noteq> 13"
      using host_start_Cons by blast
    have "(case split_scheme (remove_unsafe_bytes (lstrip c0_control_or_space base)) of
            Some sr \<Rightarrow> sr
          | None \<Rightarrow> (remove_unsafe_bytes (strip c0_control_or_space []),
                      remove_unsafe_bytes (lstrip c0_control_or_space base)))
        = (lit ''http'', lit ''//'' @ c # remove_unsafe_bytes t)"
      unfolding b r by (simp only: clean_http [OF c(2-4)] split_scheme_http option.case)
    from py_urlsplit_scheme_netloc [OF sp this]
    have "bs = lit ''http'' \<and> bn = c # takeWhile (\<lambda>x. \<not> delimiter x) (remove_unsafe_bytes t)"
      unfolding take2_slashes splitnetloc_host [OF c(1)] by simp
    then show ?thesis using c by (simp add: host_start_def)
  next
    case https
    have len: "length (lit ''https://'') = 8" by (simp add: lit_def)
    from https(1) obtain rest where b: "base = lit ''https://'' @ rest"
      by (auto simp: prefix_def)
    with https(2) len have "host_start rest" by simp
    then obtain c t where r: "rest = c # t" and c: "\<not> delimiter c" "c \<noteq> 9" "c \<noteq> 10" "c \<noteq> 13"
      using host_start_Cons by blast
    have "(case split_scheme (remove_unsafe_bytes (lstrip c0_control_or_space base)) of
            Some sr \<Rightarrow> sr
          | None \<Rightarrow> (remove_unsafe_bytes (strip c0_control_or_space []),
                      remove_unsafe_bytes (lstrip c0_control_or_space base)))
        = (lit ''https'', lit ''//'' @ c # remove_unsafe_bytes t)"
      unfolding b r by (simp only: clean_https [OF c(2-4)] split_scheme_https option.case)
    from py_urlsplit_scheme_netloc [OF sp this]
    have "bs = lit ''https'' \<and> bn = c # takeWhile (\<lambda>x. \<not> delimiter x) (remove_unsafe_bytes t)"
      unfolding take2_slashes splitnetloc_host [OF c(1)] by simp
    then show ?thesis using c by (simp add: host_start_def)
  qed
qed

text \<open>A relative reference takes the default scheme; its authority, if any, starts a host.\<close>

lemma ref_parse:
  assumes "relative_ref u"
    and "py_urlparse lib u s0 = Inr (s, n, p, pa, q, f)"
  shows "s = remove_unsafe_bytes (strip c0_control_or_space s0) \<and> (n \<noteq> [] \<longrightarrow> host_start n)"
proof -
  let ?u1 = "remove_unsafe_bytes (lstrip c0_control_or_space u)"
  obtain p' q' f' where sp: "py_urlsplit lib u s0 = Inr (s, n, p', q', f')"
    using py_urlparse_split [OF assms(2)] by blast
  have "(case split_scheme ?u1 of
            Some sr \<Rightarrow> sr
          | None \<Rightarrow> (remove_unsafe_bytes (strip c0_control_or_space s0), ?u1))
        = (remove_unsafe_bytes (strip c0_control_or_space s0), ?u1)"
    using assms(1) by (simp add: relative_ref_def)
  from py_urlsplit_scheme_netloc [OF sp this]
  have s: "s = remove_unsafe_bytes (strip c0_control_or_space s0)"
    and n: "n = (if take 2 ?u1 = lit ''//'' then fst (splitnetloc ?u1) else [])"
    by simp_all
  have "host_start n" if "n \<noteq> []"
  proof -
    from that n have n': "n = takeWhile (\<lambda>x. \<not> delimiter x) (drop 2 ?u1)"
      by (auto simp: splitnetloc_def split: if_splits)
    from that obtain c t where ct: "n = c # t" by (cases n) auto
    then have "c \<in> set (takeWhile (\<lambda>x. \<not> delimiter x) (drop 2 ?u1))"
      using n' by (metis list.set_intros(1))
    then have nd: "\<not> delimiter c" and "c \<in> set (drop 2 ?u1)"
      by (auto dest: set_takeWhileD)
    then have "c \<in> set ?u1" by (meson in_set_dropD)
    then have "c \<noteq> 9 \<and> c \<noteq> 10 \<and> c \<noteq> 13" by (rule remove_unsafe_bytes_set)
    with nd ct show ?thesis by (simp add: host_start_def)
  qed
  with s show ?thesis by simp
qed

lemma default_scheme:
  "remove_unsafe_bytes (strip c0_control_or_space (lit ''http'')) = lit ''http''"
  "remove_unsafe_bytes (strip c0_control_or_space (lit ''https'')) = lit ''https''"
  by (simp_all add: remove_unsafe_bytes_filter strip_def c0_control_or_space_def lit_def)

lemma http_schemes:
  "lit ''http'' \<in> set uses_relative" "lit ''https'' \<in> set uses_relative"
  "lit ''http'' \<in> set uses_netloc" "lit ''https'' \<in> set uses_netloc"
  by (simp_all add: uses_relative_def uses_netloc_def lit_def)

text \<open>Putting a scheme and a host together gives an absolute URL.\<close>

lemma unparse_absolute:
  assumes "s = lit ''http'' \<or> s = lit ''https''" and "host_start n"
  shows "absolute_http (py_urlunparse (s, n, p, pa, q, f))"
proof -
  obtain c t where n: "n = c # t" and c: "\<not> delimiter c" "c \<noteq> 9" "c \<noteq> 10" "c \<noteq> 13"
    using host_start_Cons [OF assms(2)] by blast
  define u where "u = (if pa \<noteq> [] then p @ lit '';'' @ pa else p)"
  define x where "x = (if u \<noteq> [] \<and> take 1 u \<noteq> lit ''/'' then lit ''/'' @ u else u)"
  define qs where "qs = (if q \<noteq> [] then lit ''?'' @ q else [])"
  define fs where "fs = (if f \<noteq> [] then lit ''#'' @ f else [])"
  have ne: "s \<noteq> []" using assms(1) by (auto simp: lit_def)
  have "py_urlunparse (s, n, p, pa, q, f) = py_urlunsplit (s, n, u, q, f)"
    by (simp add: py_urlunparse_def u_def)
  also have "\<dots> = s @ lit '':'' @ lit ''//'' @ c # t @ x @ qs @ fs"
    using ne by (simp add: py_urlunsplit_def Let_def n x_def qs_def fs_def)
  finally have e: "py_urlunparse (s, n, p, pa, q, f) = s @ lit '':'' @ lit ''//'' @ c # t @ x @ qs @ fs" .
  from assms(1) show ?thesis
  proof
    assume "s = lit ''http''"
    then have h: "s @ lit '':'' @ lit ''//'' @ c # t @ x @ qs @ fs = lit ''http://'' @ c # t @ x @ qs @ fs"
      by (simp add: lit_def)
    have a: "absolute_http (lit ''http://'' @ c # t @ x @ qs @ fs)"
      using c by (simp add: absolute_http_def host_start_def lit_def)
    show ?thesis by (simp only: e h a)
  next
    assume "s = lit ''https''"
    then have h: "s @ lit '':'' @ lit ''//'' @ c # t @ x @ qs @ fs = lit ''https://'' @ c # t @ x @ qs @ fs"
      by (simp add: lit_def)
    have a: "absolute_http (lit ''https://'' @ c # t @ x @ qs @ fs)"
      using c by (simp add: absolute_http_def host_start_def lit_def)
    show ?thesis by (simp only: e h a)
  qed
qed

lemma py_urljoin_absolute:
  assumes "absolute_http base" and "relative_ref u" and "py_urljoin lib base u = Inr r"
  shows "absolute_http r"
proof (cases "u = []")
  case True
  from assms(1) have "base \<noteq> []" by (auto simp: absolute_http_def lit_def)
  with True assms(3) have "r = base" by (simp add: py_urljoin_def)
  with assms(1) show ?thesis by simp
next
  case False
  from assms(1) have ne: "base \<noteq> []" by (auto simp: absolute_http_def lit_def)
  from assms(3) ne False obtain bs bn bp bpa bq bf
    where bp: "py_urlparse lib base [] = Inr (bs, bn, bp, bpa, bq, bf)"
    by (auto simp: py_urljoin_def split: sum.splits)
  from assms(3) ne False bp obtain s n p pa q f
    where rp: "py_urlparse lib u bs = Inr (s, n, p, pa, q, f)"
    by (auto simp: py_urljoin_def split: sum.splits)
  from base_parse [OF assms(1) bp] have bs: "bs = lit ''http'' \<or> bs = lit ''https''"
    and bn: "host_start bn" by simp_all
  from ref_parse [OF assms(2) rp] bs have s: "s = bs" and n: "n \<noteq> [] \<Longrightarrow> host_start n"
    by (auto simp: default_scheme)
  have rel: "s \<in> set uses_relative" and net: "s \<in> set uses_netloc"
    using s bs http_schemes by auto
  have "py_urljoin lib base u =
      Inr (if n \<noteq> [] then py_urlunparse (s, n, p, pa, q, f)
        else if p = [] \<and> pa = [] then py_urlunparse (s, bn, bp, bpa, if q = [] then bq else q, f)
        else py_urlunparse (s, bn, merge_paths bp p, pa, q, f))"
    unfolding py_urljoin_def using ne False rel net rp
    by (simp add: bp s Let_def)
  with assms(3) have r: "r = (if n \<noteq> [] then py_urlunparse (s, n, p, pa, q, f)
        else if p = [] \<and> pa = [] then py_urlunparse (s, bn, bp, bpa, if q = [] then bq else q, f)
        else py_urlunparse (s, bn, merge_paths bp p, pa, q, f))"
    by simp
  show ?thesis
    unfolding r using s bs bn n by (auto intro: unparse_absolute)
qed

subsection \<open>Unescaping keeps a relative target relative\<close>

lemma unescape_Nil: "replace esc_slash (lit ''/'') [] = []"
  by (rule replace_Nil) (simp add: esc_slash_def)

lemma unescape_single: "replace esc_slash (lit ''/'') [c] = [c]"
  by (subst replace.simps) (simp add: esc_slash_def replace_Nil)

lemma unescape_match:
  "replace esc_slash (lit ''/'') (92 # 47 # t) = 47 # replace esc_slash (lit ''/'') t"
  by (subst replace.simps) (simp add: esc_slash_def lit_def)

lemma unescape_other:
  "\<not> (c = 92 \<and> d = 47) \<Longrightarrow>
     replace esc_slash (lit ''/'') (c # d # t) = c # replace esc_slash (lit ''/'') (d # t)"
  by (subst replace.simps) (auto simp: esc_slash_def)

lemma unescape_Cons:
  "c \<noteq> 92 \<Longrightarrow> replace esc_slash (lit ''/'') (c # t) = c # replace esc_slash (lit ''/'') t"
  by (cases t) (simp_all add: unescape_single unescape_Nil unescape_other)

lemma unescape_colon:
  "58 \<in> set (replace esc_slash (lit ''/'') s) \<longleftrightarrow> 58 \<in> set s"
proof (induction s rule: induct_list012)
  case 1
  show ?case by (simp add: unescape_Nil)
next
  case (2 x)
  show ?case by (simp add: unescape_single)
next
  case (3 x y zs)
  show ?case
  proof (cases "x = 92 \<and> y = 47")
    case True
    with 3 show ?thesis by (simp add: unescape_match)
  next
    case False
    with 3 show ?thesis by (simp add: unescape_other)
  qed
qed

lemma unescape_keeps_slash:
  "47 \<in> set s \<Longrightarrow> 47 \<in> set (replace esc_slash (lit ''/'') s)"
proof (induction s rule: induct_list012)
  case 1
  then show ?case by simp
next
  case (2 x)
  then show ?case by (simp add: unescape_single)
next
  case (3 x y zs)
  show ?case
  proof (cases "x = 92 \<and> y = 47")
    case True
    then show ?thesis by (simp add: unescape_match)
  next
    case False
    with 3 show ?thesis by (auto simp: unescape_other)
  qed
qed

lemma unescape_no_slash:
  "47 \<notin> set s \<Longrightarrow> replace esc_slash (lit ''/'') s = s"
proof (induction s rule: induct_list012)
  case 1
  show ?case by (simp add: unescape_Nil)
next
  case (2 x)
  show ?case by (simp add: unescape_single)
next
  case (3 x y zs)
  then have "\<not> (x = 92 \<and> y = 47)" by auto
  with 3 show ?case by (simp add: unescape_other)
qed

lemma unescape_before_colon:
  "takeWhile (\<lambda>c. c \<noteq> 58) (replace esc_slash (lit ''/'') s) =
     replace esc_slash (lit ''/'') (takeWhile (\<lambda>c. c \<noteq> 58) s)"
proof (induction s rule: induct_list012)
  case 1
  show ?case by (simp add: unescape_Nil)
next
  case (2 x)
  show ?case by (simp add: unescape_single unescape_Nil)
next
  case (3 x y zs)
  show ?case
  proof (cases "x = 92 \<and> y = 47")
    case True
    with 3 show ?thesis by (simp add: unescape_match)
  next
    case False
    show ?thesis
    proof (cases "x = 58")
      case True
      with False show ?thesis by (simp add: unescape_other unescape_Nil)
    next
      case x: False
      show ?thesis
      proof (cases "y = 58")
        case True
        with False x show ?thesis by (simp add: unescape_other unescape_Cons unescape_single)
      next
        case y: False
        with False x 3 show ?thesis by (simp add: unescape_other)
      qed
    qed
  qed
qed

text \<open>
  Whether \<^verbatim>\<open>urlsplit\<close> finds a scheme depends on the text before the first colon
  only, and that text has no slash when it is a scheme.
\<close>

lemma clean_before_colon:
  "takeWhile (\<lambda>c. c \<noteq> 58) (remove_unsafe_bytes (lstrip c0_control_or_space u)) =
     remove_unsafe_bytes (lstrip c0_control_or_space (takeWhile (\<lambda>c. c \<noteq> 58) u))"
proof -
  have f: "takeWhile (\<lambda>c. c \<noteq> 58) (filter (\<lambda>x. x \<noteq> 9 \<and> x \<noteq> 13 \<and> x \<noteq> 10) xs) =
      filter (\<lambda>x. x \<noteq> 9 \<and> x \<noteq> 13 \<and> x \<noteq> 10) (takeWhile (\<lambda>c. c \<noteq> 58) xs)" for xs :: pystr
    by (induction xs) simp_all
  have d: "takeWhile (\<lambda>c. c \<noteq> 58) (dropWhile (\<lambda>c. c < 33) xs) =
      dropWhile (\<lambda>c. c < 33) (takeWhile (\<lambda>c. c \<noteq> 58) xs)" for xs :: pystr
    by (induction xs) simp_all
  show ?thesis
    by (simp add: remove_unsafe_bytes_filter lstrip_def c0_control_or_space_def f d)
qed

lemma clean_mem:
  assumes "32 < c" "c \<in> set u"
  shows "c \<in> set (remove_unsafe_bytes (lstrip c0_control_or_space u))"
proof -
  have "c \<in> set (dropWhile (\<lambda>c. c < 33) xs)" if "c \<in> set xs" for xs
    using that assms(1) by (induction xs) auto
  with assms show ?thesis
    by (simp add: remove_unsafe_bytes_filter lstrip_def c0_control_or_space_def)
qed

lemma clean_colon:
  "58 \<in> set (remove_unsafe_bytes (lstrip c0_control_or_space u)) \<longleftrightarrow> 58 \<in> set u"
proof
  assume "58 \<in> set (remove_unsafe_bytes (lstrip c0_control_or_space u))"
  then show "58 \<in> set u"
    by (auto simp: remove_unsafe_bytes_filter lstrip_def dest: set_dropWhileD)
next
  assume "58 \<in> set u"
  then show "58 \<in> set (remove_unsafe_bytes (lstrip c0_control_or_space u))"
    by (simp add: clean_mem)
qed

lemma relative_ref_before_colon:
  "relative_ref u \<longleftrightarrow>
     \<not> (58 \<in> set u \<and>
        remove_unsafe_bytes (lstrip c0_control_or_space (takeWhile (\<lambda>c. c \<noteq> 58) u)) \<noteq> [] \<and>
        is_ascii_alpha
          (hd (remove_unsafe_bytes (lstrip c0_control_or_space (takeWhile (\<lambda>c. c \<noteq> 58) u)))) \<and>
        list_all (\<lambda>c. c \<in> set scheme_chars)
          (remove_unsafe_bytes (lstrip c0_control_or_space (takeWhile (\<lambda>c. c \<noteq> 58) u))))"
proof -
  define v where "v = remove_unsafe_bytes (lstrip c0_control_or_space u)"
  have p: "remove_unsafe_bytes (lstrip c0_control_or_space (takeWhile (\<lambda>c. c \<noteq> 58) u)) =
      takeWhile (\<lambda>c. c \<noteq> 58) v"
    unfolding v_def by (rule clean_before_colon [symmetric])
  have h: "hd (takeWhile (\<lambda>c. c \<noteq> 58) v) = hd v" if "takeWhile (\<lambda>c. c \<noteq> 58) v \<noteq> []"
    using that by (cases v) (auto split: if_splits)
  have c: "58 \<in> set v \<longleftrightarrow> 58 \<in> set u"
    unfolding v_def by (rule clean_colon)
  show ?thesis
    unfolding relative_ref_def p v_def [symmetric] split_scheme_def split_once_def fst_conv
    using h c by auto
qed

lemma scheme_chars_no_slash: "47 \<notin> set scheme_chars"
  by (simp add: scheme_chars_def lit_def)

lemma relative_ref_unescape:
  assumes "relative_ref Y"
  shows "relative_ref (replace esc_slash (lit ''/'') Y)"
proof (rule ccontr)
  let ?R = "replace esc_slash (lit ''/'')"
  let ?p = "takeWhile (\<lambda>c. c \<noteq> 58) Y"
  let ?clean = "\<lambda>s. remove_unsafe_bytes (lstrip c0_control_or_space s)"
  assume "\<not> relative_ref (?R Y)"
  then have colon: "58 \<in> set (?R Y)"
    and ne: "?clean (takeWhile (\<lambda>c. c \<noteq> 58) (?R Y)) \<noteq> []"
    and al: "is_ascii_alpha (hd (?clean (takeWhile (\<lambda>c. c \<noteq> 58) (?R Y))))"
    and sc: "list_all (\<lambda>c. c \<in> set scheme_chars) (?clean (takeWhile (\<lambda>c. c \<noteq> 58) (?R Y)))"
    unfolding relative_ref_before_colon [of "?R Y"] by blast+
  have "47 \<notin> set (?R ?p)"
  proof
    assume "47 \<in> set (?R ?p)"
    then have "47 \<in> set (?clean (?R ?p))" by (simp add: clean_mem)
    with sc scheme_chars_no_slash show False
      unfolding unescape_before_colon by (auto simp: list_all_iff)
  qed
  then have "47 \<notin> set ?p" using unescape_keeps_slash by blast
  then have same: "?R ?p = ?p" by (rule unescape_no_slash)
  from colon have "58 \<in> set Y" by (simp only: unescape_colon)
  with ne al sc have "\<not> relative_ref Y"
    unfolding relative_ref_before_colon [of Y] unescape_before_colon same by blast
  with assms show False by contradiction
qed
text \<open>
  Claim C3. When the body has no \<^verbatim>\<open>data-u\<close> attribute and contains an assignment
  \<^verbatim>\<open>window.location.href = "Y"\<close> (the first place of the body that the pattern
  matches), the extractor returns what \<^verbatim>\<open>urljoin\<close> makes of the final URL of the
  working response and of \<open>Y\<close> with every \<^verbatim>\<open>\/\<close> replaced by \<^verbatim>\<open>/\<close>. With the
  \<^verbatim>\<open>urljoin\<close> of the library, an absolute base and a relative \<open>Y\<close>, the URL that is
  returned is absolute: it has the scheme of the base and a host.
\<close>

theorem location_href_resolved:
  assumes "re_search data_u_re html = None"
    and \<open>html = pre @ lit ''window.location.href'' @ ws1 @ lit ''='' @ ws2 @ lit ''"'' @ Y @ lit ''"'' @ post\<close>
    and "\<forall>c\<in>set ws1. is_space c" and "\<forall>c\<in>set ws2. is_space c" and "dquote \<notin> set Y"
    and "\<forall>i<length pre. re_match location_re (drop i html) None (\<lambda>s' g. Some g) = None"
  shows \<open>extract_link urljoin resp_url html = urljoin resp_url (replace esc_slash (lit ''/'') Y) \<and>
     (absolute_http resp_url \<and> relative_ref Y \<and>
      extract_link (py_urljoin lib) resp_url html = Inr u \<longrightarrow> absolute_http u)\<close>
proof (intro conjI impI)
  show \<open>extract_link urljoin resp_url html = urljoin resp_url (replace esc_slash (lit ''/'') Y)\<close>
    using assms by (rule extract_link_location)
next
  assume a: \<open>absolute_http resp_url \<and> relative_ref Y \<and>
      extract_link (py_urljoin lib) resp_url html = Inr u\<close>
  then have r: \<open>relative_ref (replace esc_slash (lit ''/'') Y)\<close>
    by (simp add: relative_ref_unescape)
  have \<open>extract_link (py_urljoin lib) resp_url html =
      py_urljoin lib resp_url (replace esc_slash (lit ''/'') Y)\<close>
    using assms by (rule extract_link_location)
  with a have \<open>py_urljoin lib resp_url (replace esc_slash (lit ''/'') Y) = Inr u\<close>
    by simp
  with a r show "absolute_http u"
    by (blast intro: py_urljoin_absolute)
qed

theorem location_href_resolved_witness:
  \<open>extract_link (py_urljoin \<lparr>bracketed_host_ok = (\<lambda>h. True), nfkc_ok = (\<lambda>n. True)\<rparr>)
      (lit ''https://www.a.cpfrx.info/servers'')
      (lit ''<script>'' @ lit ''window.location.href'' @ lit '' '' @ lit ''='' @ lit '' '' @ lit ''"''
        @ (esc_slash @ lit ''get'' @ esc_slash @ lit ''abc'') @ lit ''"'' @ lit '';</script>'')
     = Inr (lit ''https://www.a.cpfrx.info/get/abc'') \<and>
   absolute_http (lit ''https://www.a.cpfrx.info/get/abc'')\<close>
proof -
  let ?lib = \<open>\<lparr>bracketed_host_ok = (\<lambda>h. True), nfkc_ok = (\<lambda>n. True)\<rparr>\<close>
  let ?base = \<open>lit ''https://www.a.cpfrx.info/servers''\<close>
  let ?pre = \<open>lit ''<script>''\<close>
  let ?Y = \<open>esc_slash @ lit ''get'' @ esc_slash @ lit ''abc''\<close>
  let ?post = \<open>lit '';</script>''\<close>
  let ?html = \<open>?pre @ lit ''window.location.href'' @ lit '' '' @ lit ''='' @ lit '' '' @ lit ''"''
        @ ?Y @ lit ''"'' @ ?post\<close>
  have \<open>\<not> sublist (lit ''data-u="'') ?html\<close> by code_simp
  then have h1: "re_search data_u_re ?html = None"
    by (rule data_u_search_None)
  have h3: \<open>\<forall>c\<in>set (lit '' ''). is_space c\<close>
    by (simp add: lit_def is_space_def)
  have h5: "dquote \<notin> set ?Y"
    by (simp add: lit_def dquote_def esc_slash_def)
  have \<open>\<not> sublist (lit ''window.location.href'') (?pre @ butlast (lit ''window.location.href''))\<close>
    by code_simp
  then have \<open>\<forall>i<length ?pre. \<not> prefix (lit ''window.location.href'') (drop i ?html)\<close>
    by (rule first_occurrence)
  then have h6: "\<forall>i<length ?pre. re_match location_re (drop i ?html) None (\<lambda>s' g. Some g) = None"
    by (simp add: location_no_match)
  have y: \<open>replace esc_slash (lit ''/'') ?Y = lit ''/get/abc''\<close>
    by code_simp
  have ab: "absolute_http ?base"
    by (simp add: absolute_http_def host_start_def delimiter_def lit_def)
  have rel: "relative_ref ?Y"
    by (simp add: relative_ref_def split_scheme_def remove_unsafe_bytes_filter lstrip_def
        c0_control_or_space_def lit_def esc_slash_def)
  have j: \<open>py_urljoin ?lib ?base (lit ''/get/abc'') = Inr (lit ''https://www.a.cpfrx.info/get/abc'')\<close>
    by code_simp
  note t = location_href_resolved [OF h1 refl h3 h3 h5 h6, of "py_urljoin ?lib" ?base ?lib
      \<open>lit ''https://www.a.cpfrx.info/get/abc''\<close>]
  from t have e: \<open>extract_link (py_urljoin ?lib) ?base ?html = Inr (lit ''https://www.a.cpfrx.info/get/abc'')\<close>
    by (simp only: y j)
  moreover from t e ab rel have \<open>absolute_http (lit ''https://www.a.cpfrx.info/get/abc'')\<close>
    by (simp only: y)
  ultimately show ?thesis by (intro conjI)
qed

section \<open>No rule matches\<close>

text \<open>
  Claim C4. When none of the three patterns matches the text of the working response,
  the rule set gives the \<^verbatim>\<open>RuntimeError\<close> "no direct link" and no URL, and so does
  \<^verbatim>\<open>get_real_url\<close> in both variants (the English one does not turn this error into
  another, since it is not a \<^verbatim>\<open>RequestException\<close>).
\<close>

theorem no_rule_matches_raises:
  assumes "get_csrf w = Inr csrf"
    and "http_post_servers w target csrf = Inr resp0"
    and "(if status_code resp0 = 301 \<or> status_code resp0 = 302
          then http_send_next w resp0 else Inr resp0) = Inr resp"
    and "re_search data_u_re (resp_text resp) = None"
    and "re_search location_re (resp_text resp) = None"
    and "re_search anchor_re (resp_text resp) = None"
  shows "extract_link urljoin (url resp) (resp_text resp) = Inl (RuntimeError NoDirectLink) \<and>
     get_real_url w target = Inl (RuntimeError NoDirectLink) \<and>
     get_real_url_en w target st = (Inl (Raised (RuntimeError NoDirectLink)), st)"
proof -
  have x: "extract_link uj (url resp) (resp_text resp) = Inl (RuntimeError NoDirectLink)" for uj
    using assms(4-6) by (simp add: extract_link_def)
  then have s: "submit w target csrf = Inl (RuntimeError NoDirectLink)"
    using assms(2,3) by (simp add: submit_def)
  then have "get_real_url w target = Inl (RuntimeError NoDirectLink)"
    using assms(1) by (simp add: get_real_url_def)
  moreover have "get_real_url_en w target st = (Inl (Raised (RuntimeError NoDirectLink)), st)"
    using assms(1) s by (simp add: get_real_url_en_def get_csrf_en_def)
  ultimately show ?thesis using x by simp
qed

theorem no_rule_matches_raises_witness:
  \<open>(let page = \<lparr>status_code = 200, resp_text = lit ''<input name="csrf" value="t0">'',
        url = lit ''https://www.a.cpfrx.info/'', content_length = None, chunks = [],
        stream_end = None\<rparr>;
      answer = \<lparr>status_code = 200, resp_text = lit ''<html><p>try again later</p></html>'',
        url = lit ''https://www.a.cpfrx.info/servers'', content_length = None, chunks = [],
        stream_end = None\<rparr>;
      w = \<lparr>http_get_index = Inr page, http_post_servers = (\<lambda>t c. Inr answer),
        http_send_next = (\<lambda>r. Inl RequestException), http_head = (\<lambda>u. Inl RequestException),
        http_get_stream = (\<lambda>u. Inl RequestException),
        soup = (\<lambda>t. [\<lparr>tag = lit ''input'',
                        attrs = [lit ''name'' \<mapsto> lit ''csrf'', lit ''value'' \<mapsto> lit ''t0'']\<rparr>]),
        w_urljoin = (\<lambda>b r. Inr (b @ r)), py_int = (\<lambda>s. Inl ValueError),
        zip_open = (\<lambda>b. Inl BadZipFile)\<rparr>
    in get_csrf w = Inr (lit ''t0'') \<and>
       get_real_url w (lit ''https://example.com/file.iso'') = Inl (RuntimeError NoDirectLink) \<and>
       get_real_url_en w (lit ''https://example.com/file.iso'') \<lparr>files = Map.empty, out = []\<rparr>
         = (Inl (Raised (RuntimeError NoDirectLink)), \<lparr>files = Map.empty, out = []\<rparr>))\<close>
proof -
  let ?page = \<open>\<lparr>status_code = 200, resp_text = lit ''<input name="csrf" value="t0">'',
        url = lit ''https://www.a.cpfrx.info/'', content_length = None, chunks = [],
        stream_end = None\<rparr>\<close>
  let ?answer = \<open>\<lparr>status_code = 200, resp_text = lit ''<html><p>try again later</p></html>'',
        url = lit ''https://www.a.cpfrx.info/servers'', content_length = None, chunks = [],
        stream_end = None\<rparr>\<close>
  let ?w = \<open>\<lparr>http_get_index = Inr ?page, http_post_servers = (\<lambda>t c. Inr ?answer),
        http_send_next = (\<lambda>r. Inl RequestException), http_head = (\<lambda>u. Inl RequestException),
        http_get_stream = (\<lambda>u. Inl RequestException),
        soup = (\<lambda>t. [\<lparr>tag = lit ''input'',
                        attrs = [lit ''name'' \<mapsto> lit ''csrf'', lit ''value'' \<mapsto> lit ''t0'']\<rparr>]),
        w_urljoin = (\<lambda>b r. Inr (b @ r)), py_int = (\<lambda>s. Inl ValueError),
        zip_open = (\<lambda>b. Inl BadZipFile)\<rparr>\<close>
  let ?html = \<open>lit ''<html><p>try again later</p></html>''\<close>
  have c: \<open>get_csrf ?w = Inr (lit ''t0'')\<close>
    by (simp add: get_csrf_def raise_for_status_def csrf_value_def find_csrf_input_def
        is_csrf_input_def lit_def)
  have p: \<open>http_post_servers ?w (lit ''https://example.com/file.iso'') (lit ''t0'') = Inr ?answer\<close>
    by simp
  have r: "(if status_code ?answer = 301 \<or> status_code ?answer = 302
          then http_send_next ?w ?answer else Inr ?answer) = Inr ?answer"
    by simp
  have \<open>\<not> sublist (lit ''data-u="'') ?html\<close> by code_simp
  then have a: "re_search data_u_re (resp_text ?answer) = None"
    by (simp add: data_u_search_None)
  have \<open>\<not> sublist (lit ''window.location.href'') ?html\<close> by code_simp
  then have b: "re_search location_re (resp_text ?answer) = None"
    by (simp add: location_search_None)
  have \<open>\<not> sublist (lit ''<a'') ?html\<close> by code_simp
  then have d: "re_search anchor_re (resp_text ?answer) = None"
    by (simp add: anchor_search_None)
  show ?thesis
    using no_rule_matches_raises [OF c p r a b d] c by (simp only: Let_def)
qed

section \<open>The token\<close>

lemma find_csrf_input_None:
  "\<forall>e\<in>set els. \<not> is_csrf_input e \<Longrightarrow> find_csrf_input els = None"
  by (simp add: find_csrf_input_def find_None_iff)

lemma find_csrf_input_first:
  "\<forall>x\<in>set before. \<not> is_csrf_input x \<Longrightarrow> is_csrf_input e \<Longrightarrow>
     find_csrf_input (before @ e # rest) = Some e"
  by (induction before) (simp_all add: find_csrf_input_def)

text \<open>
  Claim C9. On a landing page that was fetched with success: when no element of the page
  is an \<^verbatim>\<open>input\<close> named \<^verbatim>\<open>csrf\<close>, \<^verbatim>\<open>get_csrf\<close> fails (with the \<^verbatim>\<open>TypeError\<close> of
  subscripting \<^verbatim>\<open>None\<close>) and returns nothing; when the page has such an element, it
  returns the \<^verbatim>\<open>value\<close> attribute \<open>v\<close> of the first one. Both variants agree.
\<close>

theorem get_csrf_token:
  assumes "http_get_index w = Inr resp" and "raise_for_status resp = Inr ()"
  shows "((\<forall>e\<in>set (soup w (resp_text resp)). \<not> is_csrf_input e) \<longrightarrow>
        get_csrf w = Inl TypeError \<and> get_csrf_en w st = (Inl (Raised TypeError), st)) \<and>
     (soup w (resp_text resp) = before @ e # rest \<and> (\<forall>x\<in>set before. \<not> is_csrf_input x) \<and>
        is_csrf_input e \<and> attrs e (lit ''value'') = Some v \<longrightarrow>
        get_csrf w = Inr v \<and> get_csrf_en w st = (Inr v, st))"
proof (intro conjI impI)
  assume "\<forall>e\<in>set (soup w (resp_text resp)). \<not> is_csrf_input e"
  then have "find_csrf_input (soup w (resp_text resp)) = None"
    by (rule find_csrf_input_None)
  then have g: "get_csrf w = Inl TypeError"
    using assms by (simp add: get_csrf_def csrf_value_def)
  then show "get_csrf w = Inl TypeError" .
  from g show "get_csrf_en w st = (Inl (Raised TypeError), st)"
    by (simp add: get_csrf_en_def)
next
  assume a: "soup w (resp_text resp) = before @ e # rest \<and> (\<forall>x\<in>set before. \<not> is_csrf_input x) \<and>
        is_csrf_input e \<and> attrs e (lit ''value'') = Some v"
  then have "find_csrf_input (soup w (resp_text resp)) = Some e"
    by (simp add: find_csrf_input_first)
  then have g: "get_csrf w = Inr v"
    using assms a by (simp add: get_csrf_def csrf_value_def)
  then show "get_csrf w = Inr v" .
  from g show "get_csrf_en w st = (Inr v, st)"
    by (simp add: get_csrf_en_def)
qed

theorem get_csrf_token_witness:
  \<open>(let w0 = \<lparr>http_get_index = Inr \<lparr>status_code = 200, resp_text = lit ''<p>maintenance</p>'',
          url = lit ''https://www.a.cpfrx.info/'', content_length = None, chunks = [],
          stream_end = None\<rparr>,
        http_post_servers = (\<lambda>t c. Inl RequestException),
        http_send_next = (\<lambda>r. Inl RequestException), http_head = (\<lambda>u. Inl RequestException),
        http_get_stream = (\<lambda>u. Inl RequestException),
        soup = (\<lambda>t. [\<lparr>tag = lit ''p'', attrs = Map.empty\<rparr>]),
        w_urljoin = (\<lambda>b r. Inr (b @ r)), py_int = (\<lambda>s. Inl ValueError),
        zip_open = (\<lambda>b. Inl BadZipFile)\<rparr>;
      w1 = \<lparr>http_get_index = Inr \<lparr>status_code = 200,
          resp_text = lit ''<form><input name="url"><input name="csrf" value="t0"></form>'',
          url = lit ''https://www.a.cpfrx.info/'', content_length = None, chunks = [],
          stream_end = None\<rparr>,
        http_post_servers = (\<lambda>t c. Inl RequestException),
        http_send_next = (\<lambda>r. Inl RequestException), http_head = (\<lambda>u. Inl RequestException),
        http_get_stream = (\<lambda>u. Inl RequestException),
        soup = (\<lambda>t. [\<lparr>tag = lit ''form'', attrs = Map.empty\<rparr>,
                      \<lparr>tag = lit ''input'', attrs = [lit ''name'' \<mapsto> lit ''url'']\<rparr>,
                      \<lparr>tag = lit ''input'',
                        attrs = [lit ''name'' \<mapsto> lit ''csrf'', lit ''value'' \<mapsto> lit ''t0'']\<rparr>]),
        w_urljoin = (\<lambda>b r. Inr (b @ r)), py_int = (\<lambda>s. Inl ValueError),
        zip_open = (\<lambda>b. Inl BadZipFile)\<rparr>
    in get_csrf w0 = Inl TypeError \<and>
       get_csrf_en w0 \<lparr>files = Map.empty, out = []\<rparr> = (Inl (Raised TypeError), \<lparr>files = Map.empty, out = []\<rparr>) \<and>
       get_csrf w1 = Inr (lit ''t0'') \<and>
       get_csrf_en w1 \<lparr>files = Map.empty, out = []\<rparr> = (Inr (lit ''t0''), \<lparr>files = Map.empty, out = []\<rparr>))\<close>
proof -
  let ?r0 = \<open>\<lparr>status_code = 200, resp_text = lit ''<p>maintenance</p>'',
          url = lit ''https://www.a.cpfrx.info/'', content_length = None, chunks = [],
          stream_end = None\<rparr>\<close>
  let ?w0 = \<open>\<lparr>http_get_index = Inr ?r0,
        http_post_servers = (\<lambda>t c. Inl RequestException),
        http_send_next = (\<lambda>r. Inl RequestException), http_head = (\<lambda>u. Inl RequestException),
        http_get_stream = (\<lambda>u. Inl RequestException),
        soup = (\<lambda>t. [\<lparr>tag = lit ''p'', attrs = Map.empty\<rparr>]),
        w_urljoin = (\<lambda>b r. Inr (b @ r)), py_int = (\<lambda>s. Inl ValueError),
        zip_open = (\<lambda>b. Inl BadZipFile)\<rparr>\<close>
  let ?r1 = \<open>\<lparr>status_code = 200,
          resp_text = lit ''<form><input name="url"><input name="csrf" value="t0"></form>'',
          url = lit ''https://www.a.cpfrx.info/'', content_length = None, chunks = [],
          stream_end = None\<rparr>\<close>
  let ?e = \<open>\<lparr>tag = lit ''input'',
                        attrs = [lit ''name'' \<mapsto> lit ''csrf'', lit ''value'' \<mapsto> lit ''t0'']\<rparr>\<close>
  let ?before = \<open>[\<lparr>tag = lit ''form'', attrs = Map.empty\<rparr>,
                      \<lparr>tag = lit ''input'', attrs = [lit ''name'' \<mapsto> lit ''url'']\<rparr>]\<close>
  let ?w1 = \<open>\<lparr>http_get_index = Inr ?r1,
        http_post_servers = (\<lambda>t c. Inl RequestException),
        http_send_next = (\<lambda>r. Inl RequestException), http_head = (\<lambda>u. Inl RequestException),
        http_get_stream = (\<lambda>u. Inl RequestException),
        soup = (\<lambda>t. [\<lparr>tag = lit ''form'', attrs = Map.empty\<rparr>,
                      \<lparr>tag = lit ''input'', attrs = [lit ''name'' \<mapsto> lit ''url'']\<rparr>,
                      ?e]),
        w_urljoin = (\<lambda>b r. Inr (b @ r)), py_int = (\<lambda>s. Inl ValueError),
        zip_open = (\<lambda>b. Inl BadZipFile)\<rparr>\<close>
  let ?st = \<open>\<lparr>files = Map.empty, out = []\<rparr>\<close>
  have g0: "http_get_index ?w0 = Inr ?r0" and s0: "raise_for_status ?r0 = Inr ()"
    by (simp_all add: raise_for_status_def)
  have n0: "\<forall>e\<in>set (soup ?w0 (resp_text ?r0)). \<not> is_csrf_input e"
    by (simp add: is_csrf_input_def lit_def)
  have g1: "http_get_index ?w1 = Inr ?r1" and s1: "raise_for_status ?r1 = Inr ()"
    by (simp_all add: raise_for_status_def)
  have d1: "soup ?w1 (resp_text ?r1) = ?before @ ?e # []"
    by simp
  have b1: "\<forall>x\<in>set ?before. \<not> is_csrf_input x"
    by (simp add: is_csrf_input_def lit_def)
  have e1: "is_csrf_input ?e"
    by (simp add: is_csrf_input_def lit_def)
  have v1: \<open>attrs ?e (lit ''value'') = Some (lit ''t0'')\<close>
    by (simp add: lit_def)
  have "get_csrf ?w0 = Inl TypeError \<and> get_csrf_en ?w0 ?st = (Inl (Raised TypeError), ?st)"
    using get_csrf_token [OF g0 s0, of ?st] n0 by blast
  moreover have \<open>get_csrf ?w1 = Inr (lit ''t0'') \<and> get_csrf_en ?w1 ?st = (Inr (lit ''t0''), ?st)\<close>
    using get_csrf_token [OF g1 s1, of ?st ?before ?e "[]" \<open>lit ''t0''\<close>] d1 b1 e1 v1 by blast
  ultimately show ?thesis by (simp only: Let_def)
qed

section \<open>The download loop\<close>

lemma write_chunks_file:
  "fst (write_chunks tot cs (f, n, p)) = f @ concat cs"
  by (induction cs arbitrary: f n p) (simp_all add: Let_def)

lemma write_chunks_count:
  "fst (snd (write_chunks tot cs (f, n, p))) = n + int (length (concat cs))"
  by (induction cs arbitrary: f n p) (simp_all add: Let_def)

lemma write_chunks_skip_empty:
  "write_chunks tot cs acc = write_chunks tot (filter (\<lambda>c. c \<noteq> []) cs) acc"
proof (induction cs arbitrary: acc)
  case Nil
  show ?case by simp
next
  case (Cons c cs)
  obtain f n p where acc: "acc = (f, n, p)" by (cases acc)
  show ?case unfolding acc using Cons.IH by (simp add: Let_def)
qed

lemma concat_skip_empty: "concat (filter (\<lambda>c. c \<noteq> []) cs) = concat cs"
  by (induction cs) simp_all

lemma write_chunks_no_total:
  "snd (snd (write_chunks 0 cs (f, n, p))) = p"
  by (induction cs arbitrary: f n p) (simp_all add: Let_def)

lemma save_stream_file:
  assumes "raise_for_status r = Inr ()" and "total_length w r = Inr tot"
  shows "files (snd (save_stream w r d st)) (d, lit ''downloaded_file.zip'') = Some (concat (chunks r))"
proof -
  obtain f n p where wc: "write_chunks tot (chunks r) ([], 0, out st) = (f, n, p)"
    by (cases "write_chunks tot (chunks r) ([], 0, out st)")
  have "f = fst (write_chunks tot (chunks r) ([], 0, out st))" using wc by simp
  then have "f = concat (chunks r)" by (simp add: write_chunks_file)
  then show ?thesis
    using assms wc by (simp add: save_stream_def Let_def split: option.splits)
qed

text \<open>
  Claim C5. Whatever the chunks of the response are, the loop leaves in the output file
  (opened empty) their concatenation in arrival order, and the byte counter at its
  length, which is the length \<open>N\<close> of the body; empty chunks add nothing, and a run
  with them is the run without them.
\<close>

theorem download_byte_exact:
  assumes "raise_for_status r = Inr ()" and "total_length w r = Inr tot"
  shows "files (snd (save_stream w r d st)) (d, lit ''downloaded_file.zip'') = Some (concat (chunks r)) \<and>
     fst (write_chunks tot (chunks r) ([], 0, p)) = concat (chunks r) \<and>
     fst (snd (write_chunks tot (chunks r) ([], 0, p))) = int (length (concat (chunks r))) \<and>
     concat (chunks r) = concat (filter (\<lambda>c. c \<noteq> []) (chunks r)) \<and>
     write_chunks tot (chunks r) acc = write_chunks tot (filter (\<lambda>c. c \<noteq> []) (chunks r)) acc"
proof (intro conjI)
  show "files (snd (save_stream w r d st)) (d, lit ''downloaded_file.zip'') = Some (concat (chunks r))"
    using assms by (rule save_stream_file)
  show "fst (write_chunks tot (chunks r) ([], 0, p)) = concat (chunks r)"
    by (simp add: write_chunks_file)
  show "fst (snd (write_chunks tot (chunks r) ([], 0, p))) = int (length (concat (chunks r)))"
    by (simp add: write_chunks_count)
  show "concat (chunks r) = concat (filter (\<lambda>c. c \<noteq> []) (chunks r))"
    by (simp add: concat_skip_empty)
  show "write_chunks tot (chunks r) acc = write_chunks tot (filter (\<lambda>c. c \<noteq> []) (chunks r)) acc"
    by (rule write_chunks_skip_empty)
qed

theorem download_byte_exact_witness:
  \<open>files (snd (save_stream (offline\<lparr>py_int := (\<lambda>s. Inr 5)\<rparr>)
       \<lparr>status_code = 200, resp_text = [], url = lit ''https://cdn.example.com/stream/abc123'',
         content_length = Some (lit ''5''), chunks = [[80, 75], [], [3, 4, 5]], stream_end = None\<rparr>
       (lit ''downloads'')
       (fresh\<lparr>files := [(lit ''downloads'', lit ''downloaded_file.zip'') \<mapsto> [9, 9, 9, 9, 9, 9, 9]]\<rparr>)))
     (lit ''downloads'', lit ''downloaded_file.zip'') = Some [80, 75, 3, 4, 5] \<and>
   write_chunks 5 [[80, 75], [], [3, 4, 5]] ([], 0, []) =
     ([80, 75, 3, 4, 5], 5, [Progress 2 5 40, Progress 5 5 100])\<close>
proof -
  let ?w = \<open>offline\<lparr>py_int := (\<lambda>s. Inr 5)\<rparr>\<close>
  let ?r = \<open>\<lparr>status_code = 200, resp_text = [], url = lit ''https://cdn.example.com/stream/abc123'',
         content_length = Some (lit ''5''), chunks = [[80, 75], [], [3, 4, 5]], stream_end = None\<rparr>\<close>
  have s: "raise_for_status ?r = Inr ()"
    by (simp add: raise_for_status_def)
  have t: "total_length ?w ?r = Inr 5"
    by (simp add: total_length_def)
  have c: "concat (chunks ?r) = [80, 75, 3, 4, 5]"
    by simp
  have "write_chunks 5 [[80, 75], [], [3, 4, 5]] ([], 0, []) =
     ([80, 75, 3, 4, 5], 5, [Progress 2 5 40, Progress 5 5 100])"
    by (simp add: Let_def)
  then show ?thesis
    using download_byte_exact [OF s t] c by simp
qed

text \<open>
  Claim C6, as stated, fails: with no total, two chunks are written and counted and
  no progress line is printed.
\<close>

theorem progress_without_total_counterexample:
  "write_chunks 0 [[1, 2, 3], [4]] ([], 0, []) = ([1, 2, 3, 4], 4, [])"
  by (simp add: Let_def)

text \<open>
  Claim C6, amended. When the \<^verbatim>\<open>content-length\<close> header is absent or reads as zero,
  the total is 0, the loop still counts every byte and prints no progress line at all,
  and a download that succeeds prints the completion line only.
\<close>

theorem no_progress_when_total_unknown:
  assumes "content_length r = None \<or> (\<exists>h. content_length r = Some h \<and> py_int w h = Inr 0)"
  shows "total_length w r = Inr 0 \<and>
     snd (snd (write_chunks 0 (chunks r) (f, n, p))) = p \<and>
     fst (snd (write_chunks 0 (chunks r) (f, n, p))) = n + int (length (concat (chunks r))) \<and>
     (raise_for_status r = Inr () \<and> stream_end r = None \<longrightarrow>
        out (snd (save_stream w r d st)) = out st @ [Completed d])"
proof -
  have t: "total_length w r = Inr 0"
    using assms by (auto simp: total_length_def)
  have o: "out (snd (save_stream w r d st)) = out st @ [Completed d]"
    if "raise_for_status r = Inr ()" and "stream_end r = None"
  proof -
    obtain f' n' p' where wc: "write_chunks 0 (chunks r) ([], 0, out st) = (f', n', p')"
      by (cases "write_chunks 0 (chunks r) ([], 0, out st)")
    have "p' = snd (snd (write_chunks 0 (chunks r) ([], 0, out st)))" using wc by simp
    then have "p' = out st" by (simp add: write_chunks_no_total)
    then show ?thesis
      using that t wc by (simp add: save_stream_def Let_def)
  qed
  show ?thesis
    using t o by (simp add: write_chunks_no_total write_chunks_count)
qed

theorem no_progress_when_total_unknown_witness:
  \<open>total_length offline
      \<lparr>status_code = 200, resp_text = [], url = lit ''https://cdn.example.com/stream/abc123'',
        content_length = None, chunks = [[1, 2, 3], [4]], stream_end = None\<rparr> = Inr 0 \<and>
   out (snd (save_stream offline
      \<lparr>status_code = 200, resp_text = [], url = lit ''https://cdn.example.com/stream/abc123'',
        content_length = None, chunks = [[1, 2, 3], [4]], stream_end = None\<rparr>
      (lit ''downloads'') fresh)) = [Completed (lit ''downloads'')]\<close>
proof -
  let ?r = \<open>\<lparr>status_code = 200, resp_text = [], url = lit ''https://cdn.example.com/stream/abc123'',
        content_length = None, chunks = [[1, 2, 3], [4]], stream_end = None\<rparr>\<close>
  have a: "content_length ?r = None \<or> (\<exists>h. content_length ?r = Some h \<and> py_int offline h = Inr 0)"
    by simp
  have s: "raise_for_status ?r = Inr () \<and> stream_end ?r = None"
    by (simp add: raise_for_status_def)
  have "out fresh = []" by (simp add: fresh_def)
  then show ?thesis
    using no_progress_when_total_unknown [OF a, of "[]" 0 "[]" \<open>lit ''downloads''\<close> fresh] s
    by simp
qed

section \<open>Extraction of a file that is no archive\<close>

text \<open>
  Claim C8, as stated, fails for the English variant: on a file that is no zip archive
  its \<^verbatim>\<open>unzip\<close> does not raise the archive error but leaves through
  \<^verbatim>\<open>sys.exit(1)\<close>.
\<close>

theorem unzip_en_exits_counterexample:
  \<open>fst (unzip_en offline (lit ''downloads'')
      (fresh\<lparr>files := [(lit ''downloads'', lit ''downloaded_file.zip'') \<mapsto> [60, 104, 49, 62]]\<rparr>))
    = Inl (SystemExit 1)\<close>
  by (simp add: unzip_en_def unzip_def offline_def fresh_def)

text \<open>
  Claim C8, amended. When the downloaded file is not a zip archive, \<^verbatim>\<open>unzip\<close> raises
  \<^verbatim>\<open>BadZipFile\<close> in the first variant; in the English variant it catches it, prints
  a message and leaves through \<^verbatim>\<open>sys.exit(1)\<close>. In both, no file of the directory
  is created or changed: nothing is extracted and the downloaded file stays as it is.
\<close>

theorem unzip_not_an_archive:
  assumes "files st (d, lit ''downloaded_file.zip'') = Some archive"
    and "zip_open w archive = Inl BadZipFile"
  shows "unzip w d st = (Inl BadZipFile, st) \<and>
     unzip_en w d st = (Inl (SystemExit 1), st\<lparr>out := out st @ [FailedUnzip BadZipFile]\<rparr>) \<and>
     files (snd (unzip w d st)) = files st \<and>
     files (snd (unzip_en w d st)) = files st \<and>
     files (snd (unzip_en w d st)) (d, lit ''downloaded_file.zip'') = Some archive"
  using assms by (simp add: unzip_def unzip_en_def)

theorem unzip_not_an_archive_witness:
  \<open>unzip offline (lit ''downloads'')
      (fresh\<lparr>files := [(lit ''downloads'', lit ''downloaded_file.zip'') \<mapsto> [60, 104, 49, 62]]\<rparr>)
    = (Inl BadZipFile,
       fresh\<lparr>files := [(lit ''downloads'', lit ''downloaded_file.zip'') \<mapsto> [60, 104, 49, 62]]\<rparr>) \<and>
   files (snd (unzip_en offline (lit ''downloads'')
      (fresh\<lparr>files := [(lit ''downloads'', lit ''downloaded_file.zip'') \<mapsto> [60, 104, 49, 62]]\<rparr>)))
    = [(lit ''downloads'', lit ''downloaded_file.zip'') \<mapsto> [60, 104, 49, 62]]\<close>
proof -
  let ?st = \<open>fresh\<lparr>files := [(lit ''downloads'', lit ''downloaded_file.zip'') \<mapsto> [60, 104, 49, 62]]\<rparr>\<close>
  have a: \<open>files ?st (lit ''downloads'', lit ''downloaded_file.zip'') = Some [60, 104, 49, 62]\<close>
    by simp
  have b: "zip_open offline [60, 104, 49, 62] = Inl BadZipFile"
    by (simp add: offline_def)
  have "files ?st = [(lit ''downloads'', lit ''downloaded_file.zip'') \<mapsto> [60, 104, 49, 62]]"
    by simp
  then show ?thesis
    using unzip_not_an_archive [OF a b] by simp
qed

section \<open>Exit codes\<close>

lemma download_en_exit:
  assumes "fst (download_en w t d st) = Inl (SystemExit n)"
  shows "n = 1"
  using assms
  by (auto simp: download_en_def get_real_url_en_def get_csrf_en_def
      split: sum.splits prod.splits if_splits)

lemma unzip_en_exit:
  assumes "fst (unzip_en w d st) = Inl (SystemExit n)"
  shows "n = 1 \<and> fst (unzip w d st) = Inl BadZipFile"
  using assms
  by (auto simp: unzip_en_def split: sum.splits prod.splits if_splits)

lemma download_en_exit_iff:
  "fst (download_en w t d st) = Inl (SystemExit 1) \<longleftrightarrow>
     get_csrf w = Inl RequestException \<or>
     (\<exists>csrf real r0. get_csrf w = Inr csrf \<and> submit w t csrf = Inr real \<and>
        http_head w real = Inr r0 \<and>
        fst (fetch w (url r0) d (st\<lparr>out := out st @ [FinalLink (url r0)]\<rparr>)) = Inl RequestException)"
proof (cases "get_csrf w")
  case (Inl e)
  then show ?thesis
    by (cases e) (simp_all add: download_en_def get_real_url_en_def get_csrf_en_def)
next
  case csrf: (Inr csrf)
  show ?thesis
  proof (cases "submit w t csrf")
    case (Inl e)
    with csrf show ?thesis
      by (simp add: download_en_def get_real_url_en_def get_csrf_en_def)
  next
    case real: (Inr real)
    show ?thesis
    proof (cases "http_head w real")
      case (Inl e)
      with csrf real show ?thesis
        by (simp add: download_en_def get_real_url_en_def get_csrf_en_def)
    next
      case r0: (Inr r0)
      obtain x st2 where f: "fetch w (url r0) d (st\<lparr>out := out st @ [FinalLink (url r0)]\<rparr>) = (x, st2)"
        by (cases "fetch w (url r0) d (st\<lparr>out := out st @ [FinalLink (url r0)]\<rparr>)")
      show ?thesis
      proof (cases x)
        case (Inl e)
        with csrf real r0 f show ?thesis
          by (cases e) (simp_all add: download_en_def get_real_url_en_def get_csrf_en_def)
      next
        case (Inr u)
        with csrf real r0 f show ?thesis
          by (simp add: download_en_def get_real_url_en_def get_csrf_en_def)
      qed
    qed
  qed
qed

text \<open>
  The first variant: the exit code is 1 exactly when the number of arguments is wrong,
  0 exactly when download and extraction succeed, and 2 exactly when one of them
  raises; with code 2 the last line printed is the failure line.
\<close>

lemma main_exit_codes:
  "(fst (main w argv st) = 1 \<longleftrightarrow> length argv \<noteq> 3) \<and>
   (fst (main w argv st) = 0 \<longleftrightarrow>
      length argv = 3 \<and> \<not> isl (fst (download w (argv ! 1) (argv ! 2) st)) \<and>
      \<not> isl (fst (unzip w (argv ! 2) (snd (download w (argv ! 1) (argv ! 2) st))))) \<and>
   (fst (main w argv st) = 2 \<longleftrightarrow>
      length argv = 3 \<and> (isl (fst (download w (argv ! 1) (argv ! 2) st)) \<or>
      isl (fst (unzip w (argv ! 2) (snd (download w (argv ! 1) (argv ! 2) st))))))"
proof -
  obtain x st1 where dl: "download w (argv ! 1) (argv ! 2) st = (x, st1)"
    by (cases "download w (argv ! 1) (argv ! 2) st")
  obtain y st2 where uz: "unzip w (argv ! 2) st1 = (y, st2)"
    by (cases "unzip w (argv ! 2) st1")
  have m: "fst (main w argv st) =
      (if length argv \<noteq> 3 then 1 else if isl x \<or> isl y then 2 else 0)"
    using dl uz by (cases x; cases y) (simp_all add: main_def)
  show ?thesis using m dl uz by simp
qed

lemma main_failure_message:
  assumes "fst (main w argv st) = 2"
  shows "\<exists>e. out (snd (main w argv st)) \<noteq> [] \<and> last (out (snd (main w argv st))) = Failed e"
  using assms by (auto simp: main_def split: if_splits prod.splits sum.splits)

text \<open>
  The English variant: the exit code is 0, 1 or 2; it is 2, with the failure line
  printed last, when download or extraction raise an exception that reaches the main
  block, and 1 when the number of arguments is wrong and also when \<^verbatim>\<open>download\<close> or
  \<^verbatim>\<open>unzip\<close> leave through their own \<^verbatim>\<open>sys.exit(1)\<close>: \<^verbatim>\<open>download\<close> exactly for a
  \<^verbatim>\<open>RequestException\<close> of the token fetch or of the streaming request, \<^verbatim>\<open>unzip\<close>
  exactly for a \<^verbatim>\<open>BadZipFile\<close>. A \<^verbatim>\<open>RequestException\<close> of the submission or of the
  \<^verbatim>\<open>HEAD\<close> request ends with code 2.
\<close>

lemma main_en_exit_codes:
  "fst (main_en w argv st) \<in> {0, 1, 2} \<and>
   (fst (main_en w argv st) = 0 \<longleftrightarrow>
      length argv = 3 \<and> \<not> isl (fst (download_en w (argv ! 1) (argv ! 2) st)) \<and>
      \<not> isl (fst (unzip_en w (argv ! 2) (snd (download_en w (argv ! 1) (argv ! 2) st))))) \<and>
   (fst (main_en w argv st) = 2 \<longleftrightarrow>
      length argv = 3 \<and>
      ((\<exists>e. fst (download_en w (argv ! 1) (argv ! 2) st) = Inl (Raised e)) \<or>
       (\<not> isl (fst (download_en w (argv ! 1) (argv ! 2) st)) \<and>
        (\<exists>e. fst (unzip_en w (argv ! 2) (snd (download_en w (argv ! 1) (argv ! 2) st))) = Inl (Raised e))))) \<and>
   (fst (main_en w argv st) = 1 \<longleftrightarrow>
      length argv \<noteq> 3 \<or>
      fst (download_en w (argv ! 1) (argv ! 2) st) = Inl (SystemExit 1) \<or>
      (\<not> isl (fst (download_en w (argv ! 1) (argv ! 2) st)) \<and>
       fst (unzip_en w (argv ! 2) (snd (download_en w (argv ! 1) (argv ! 2) st))) = Inl (SystemExit 1)))"
proof -
  obtain x' st1' where dle: "download_en w (argv ! 1) (argv ! 2) st = (x', st1')"
    by (cases "download_en w (argv ! 1) (argv ! 2) st")
  obtain y' st2' where uze: "unzip_en w (argv ! 2) st1' = (y', st2')"
    by (cases "unzip_en w (argv ! 2) st1'")
  have xe: "n = 1" if "x' = Inl (SystemExit n)" for n
    using download_en_exit [of w "argv ! 1" "argv ! 2" st n] dle that by simp
  have ye: "n = 1" if "y' = Inl (SystemExit n)" for n
    using unzip_en_exit [of w "argv ! 2" st1' n] uze that by simp
  have me: "fst (main_en w argv st) =
      (if length argv \<noteq> 3 then 1
       else (case x' of
               Inl (SystemExit n) \<Rightarrow> 1
             | Inl (Raised e) \<Rightarrow> 2
             | Inr _ \<Rightarrow> (case y' of Inl (SystemExit n) \<Rightarrow> 1 | Inl (Raised e) \<Rightarrow> 2 | Inr _ \<Rightarrow> 0)))"
    using dle uze xe ye
    by (auto simp: main_en_def split: sum.splits failure.splits)
  have c4: "fst (main_en w argv st) \<in> {0, 1, 2}"
    using me by (simp split: sum.splits failure.splits)
  have c5: "fst (main_en w argv st) = 0 \<longleftrightarrow>
      length argv = 3 \<and> \<not> isl (fst (download_en w (argv ! 1) (argv ! 2) st)) \<and>
      \<not> isl (fst (unzip_en w (argv ! 2) (snd (download_en w (argv ! 1) (argv ! 2) st))))"
    using me dle uze by (auto split: sum.splits failure.splits)
  have c6: "fst (main_en w argv st) = 2 \<longleftrightarrow>
      length argv = 3 \<and>
      ((\<exists>e. fst (download_en w (argv ! 1) (argv ! 2) st) = Inl (Raised e)) \<or>
       (\<not> isl (fst (download_en w (argv ! 1) (argv ! 2) st)) \<and>
        (\<exists>e. fst (unzip_en w (argv ! 2) (snd (download_en w (argv ! 1) (argv ! 2) st))) = Inl (Raised e))))"
    using me dle uze by (auto split: sum.splits failure.splits)
  have c7: "fst (main_en w argv st) = 1 \<longleftrightarrow>
      length argv \<noteq> 3 \<or>
      fst (download_en w (argv ! 1) (argv ! 2) st) = Inl (SystemExit 1) \<or>
      (\<not> isl (fst (download_en w (argv ! 1) (argv ! 2) st)) \<and>
       fst (unzip_en w (argv ! 2) (snd (download_en w (argv ! 1) (argv ! 2) st))) = Inl (SystemExit 1))"
    using me dle uze xe ye by (auto split: sum.splits failure.splits)
  from c4 c5 c6 c7 show ?thesis by blast
qed

lemma main_en_failure_message:
  assumes "fst (main_en w argv st) = 2"
  shows "\<exists>e. out (snd (main_en w argv st)) \<noteq> [] \<and> last (out (snd (main_en w argv st))) = Failed e"
proof -
  have t: "\<exists>e. out (snd (top_level x s)) \<noteq> [] \<and> last (out (snd (top_level x s))) = Failed e"
    if "fst (top_level x s) = 2" "\<And>n. x = SystemExit n \<Longrightarrow> n = 1" for x s
    using that by (cases x) auto
  obtain x' st1' where dle: "download_en w (argv ! 1) (argv ! 2) st = (x', st1')"
    by (cases "download_en w (argv ! 1) (argv ! 2) st")
  obtain y' st2' where uze: "unzip_en w (argv ! 2) st1' = (y', st2')"
    by (cases "unzip_en w (argv ! 2) st1'")
  have xe: "n = 1" if "x' = Inl (SystemExit n)" for n
    using download_en_exit [of w "argv ! 1" "argv ! 2" st n] dle that by simp
  have ye: "n = 1" if "y' = Inl (SystemExit n)" for n
    using unzip_en_exit [of w "argv ! 2" st1' n] uze that by simp
  from assms have len: "length argv = 3"
    by (auto simp: main_en_def split: if_splits)
  show ?thesis
  proof (cases x')
    case (Inl f)
    with dle len have m: "main_en w argv st = top_level f st1'"
      by (simp add: main_en_def)
    from xe Inl have "\<And>n. f = SystemExit n \<Longrightarrow> n = 1" by simp
    with t [of f st1'] assms m show ?thesis by simp
  next
    case x: (Inr u)
    show ?thesis
    proof (cases y')
      case (Inl f)
      with x dle uze len have m: "main_en w argv st = top_level f st2'"
        by (simp add: main_en_def)
      from ye Inl have "\<And>n. f = SystemExit n \<Longrightarrow> n = 1" by simp
      with t [of f st2'] assms m show ?thesis by simp
    next
      case (Inr v)
      with x dle uze len have "main_en w argv st = (0, st2')"
        by (simp add: main_en_def)
      with assms show ?thesis by simp
    qed
  qed
qed

lemma unzip_en_exit_iff:
  "fst (unzip_en w d st) = Inl (SystemExit 1) \<longleftrightarrow> fst (unzip w d st) = Inl BadZipFile"
  by (auto simp: unzip_en_def split: sum.splits prod.splits if_splits)

text \<open>
  Claim C7. Every failure during download or extraction ends the process with exit
  code 2 and a failure line. The English variant does not: with the right number of
  arguments and the gateway unreachable, its token fetch catches the
  \<^verbatim>\<open>RequestException\<close>, prints its own line and calls \<^verbatim>\<open>sys.exit(1)\<close>, so the
  process ends with code 1 and the failure line of the main block is not printed. On
  the same input the first variant ends with code 2 and the failure line, and so does
  the English variant itself when the landing page is served and it is the submission
  that raises the \<^verbatim>\<open>RequestException\<close>.
\<close>

theorem exit_code_en_network_down:
  \<open>main_en offline
      [lit ''cpfrx_file_en.py'', lit ''https://example.com/file.iso'', lit ''downloads''] fresh
     = (1, \<lparr>files = Map.empty, out = [FailedCsrf RequestException]\<rparr>) \<and>
   main offline
      [lit ''cpfrx_file.py'', lit ''https://example.com/file.iso'', lit ''downloads''] fresh
     = (2, \<lparr>files = Map.empty, out = [Failed RequestException]\<rparr>) \<and>
   main_en
      (offline\<lparr>http_get_index := Inr \<lparr>status_code = 200,
           resp_text = lit ''<form><input name="csrf" value="t0"></form>'',
           url = lit ''https://www.a.cpfrx.info/'', content_length = None, chunks = [],
           stream_end = None\<rparr>,
         soup := (\<lambda>t. [\<lparr>tag = lit ''form'', attrs = Map.empty\<rparr>,
                       \<lparr>tag = lit ''input'',
                         attrs = [lit ''name'' \<mapsto> lit ''csrf'', lit ''value'' \<mapsto> lit ''t0'']\<rparr>])\<rparr>)
      [lit ''cpfrx_file_en.py'', lit ''https://example.com/file.iso'', lit ''downloads''] fresh
     = (2, \<lparr>files = Map.empty, out = [Failed (RuntimeError RequestFailed)]\<rparr>)\<close>
proof (intro conjI)
  show \<open>main_en offline
      [lit ''cpfrx_file_en.py'', lit ''https://example.com/file.iso'', lit ''downloads''] fresh
     = (1, \<lparr>files = Map.empty, out = [FailedCsrf RequestException]\<rparr>)\<close>
    by (simp add: main_en_def download_en_def get_real_url_en_def get_csrf_en_def get_csrf_def
        offline_def fresh_def)
next
  show \<open>main offline
      [lit ''cpfrx_file.py'', lit ''https://example.com/file.iso'', lit ''downloads''] fresh
     = (2, \<lparr>files = Map.empty, out = [Failed RequestException]\<rparr>)\<close>
    by (simp add: main_def download_def get_real_url_def get_csrf_def offline_def fresh_def)
next
  show \<open>main_en
      (offline\<lparr>http_get_index := Inr \<lparr>status_code = 200,
           resp_text = lit ''<form><input name="csrf" value="t0"></form>'',
           url = lit ''https://www.a.cpfrx.info/'', content_length = None, chunks = [],
           stream_end = None\<rparr>,
         soup := (\<lambda>t. [\<lparr>tag = lit ''form'', attrs = Map.empty\<rparr>,
                       \<lparr>tag = lit ''input'',
                         attrs = [lit ''name'' \<mapsto> lit ''csrf'', lit ''value'' \<mapsto> lit ''t0'']\<rparr>])\<rparr>)
      [lit ''cpfrx_file_en.py'', lit ''https://example.com/file.iso'', lit ''downloads''] fresh
     = (2, \<lparr>files = Map.empty, out = [Failed (RuntimeError RequestFailed)]\<rparr>)\<close>
    by (simp add: main_en_def download_en_def get_real_url_en_def get_csrf_en_def get_csrf_def
        submit_def csrf_value_def find_csrf_input_def is_csrf_input_def raise_for_status_def
        offline_def fresh_def lit_def)
qed

end
